theory Spec2Isabelle
  imports Complex_Main "HOL-Library.Product_Lexorder" "HOL-Library.Multiset"
    "HOL-Library.Log_Nat"
begin

section \<open>Errors and raw data\<close>

text \<open>
  The program raises no exception of its own: every failure is an exception of Python or
  of pandas. \<open>KeyError\<close> is a missing column label, \<open>CastError\<close> stands for the
  exception of \<open>astype(int)\<close> on a cell that is no 64-bit integer (ValueError, TypeError
  or OverflowError), \<open>IndexError\<close> is an index into an empty list, and \<open>ReadError\<close>
  is whatever \<open>pd.read_csv\<close> raises on a file it cannot read.
\<close>

datatype error = KeyError | CastError | IndexError | ReadError

text \<open>
  One row of a season file: the columns \<open>Team 1\<close>, \<open>Team 2\<close> and \<open>FT\<close>. A score cell
  that is missing (NaN) is \<open>None\<close>.
\<close>

record raw_match =
  Team_1 :: string
  Team_2 :: string
  FT :: "string option"

text \<open>A parsed row keeps the raw columns and gains the two goal columns.\<close>

record match = raw_match +
  home_goals :: int
  away_goals :: int

section \<open>parse_match_results\<close>

text \<open>\<open>s.split(sep)\<close> of Python for a one-character separator: never an empty list.\<close>

fun split_on :: "char \<Rightarrow> string \<Rightarrow> string list" where
  "split_on sep [] = [[]]"
| "split_on sep (c # cs) =
     (if c = sep then [] # split_on sep cs
      else (case split_on sep cs of
              [] \<Rightarrow> [[c]]
            | seg # segs \<Rightarrow> (c # seg) # segs))"

text \<open>
  \<open>int(s)\<close> of CPython, base ten, on a string whose characters are code points below
  256. Surrounding blanks are stripped, one sign is allowed, and the digits may be
  grouped by single underscores. The blanks that are stripped are the ASCII ones
  (9 to 13 and 32) and the two Unicode blanks below 256, \<open>0x85\<close> and \<open>0xA0\<close>; the
  separators 28 to 31 are not stripped. A string of more than 4300 digits is refused
  (the default limit of the interpreter; underscores and the sign do not count).
\<close>

definition is_space :: "char \<Rightarrow> bool" where
  "is_space c \<longleftrightarrow> (of_char c :: nat) \<in> {9, 10, 11, 12, 13, 32, 133, 160}"

definition is_digit :: "char \<Rightarrow> bool" where
  "is_digit c \<longleftrightarrow> 48 \<le> (of_char c :: nat) \<and> (of_char c :: nat) \<le> 57"

definition digit_val :: "char \<Rightarrow> int" where
  "digit_val c = int (of_char c) - 48"

definition strip :: "string \<Rightarrow> string" where
  "strip s = rev (dropWhile is_space (rev (dropWhile is_space s)))"

fun digitpart :: "int \<Rightarrow> string \<Rightarrow> int option" where
  "digitpart acc [] = Some acc"
| "digitpart acc (c # cs) =
     (if is_digit c then digitpart (10 * acc + digit_val c) cs
      else if c = CHR ''_'' then
        (case cs of
           [] \<Rightarrow> None
         | d # ds \<Rightarrow> if is_digit d then digitpart (10 * acc + digit_val d) ds else None)
      else None)"

definition unsigned :: "string \<Rightarrow> int option" where
  "unsigned s =
     (if 4300 < length (filter is_digit s) then None
      else (case s of
              [] \<Rightarrow> None
            | c # cs \<Rightarrow> if is_digit c then digitpart (digit_val c) cs else None))"

definition py_int :: "string \<Rightarrow> int option" where
  "py_int s = (case strip s of
                 [] \<Rightarrow> None
               | c # cs \<Rightarrow>
                   if c = CHR ''-'' then map_option uminus (unsigned cs)
                   else if c = CHR ''+'' then unsigned cs
                   else unsigned (c # cs))"

text \<open>
  \<open>df["FT"].str.split("-", expand=True)\<close>: a frame with one column per segment, as many
  columns as the longest row has segments. A missing score gives a row of NaN, a row
  with fewer segments is padded with missing cells, and a frame of no rows has no
  column at all.
\<close>

definition segments :: "raw_match \<Rightarrow> string list option" where
  "segments r = map_option (split_on CHR ''-'') (FT r)"

definition ncols :: "raw_match list \<Rightarrow> nat" where
  "ncols df = foldr max (map (\<lambda>r. case segments r of None \<Rightarrow> 1 | Some segs \<Rightarrow> length segs) df) 0"

definition cell :: "nat \<Rightarrow> raw_match \<Rightarrow> string option" where
  "cell k r = (case segments r of
                 None \<Rightarrow> None
               | Some segs \<Rightarrow> if k < length segs then Some (segs ! k) else None)"

text \<open>\<open>goals[k]\<close>: the column labelled \<open>k\<close>, a KeyError when there is none.\<close>

definition goals_column :: "raw_match list \<Rightarrow> nat \<Rightarrow> error + string option list" where
  "goals_column df k = (if k < ncols df then Inr (map (cell k) df) else Inl KeyError)"

text \<open>\<open>.astype(int)\<close>: every cell must be present and convert to a 64-bit integer.\<close>

definition to_int64 :: "string option \<Rightarrow> int option" where
  "to_int64 c = (case c of
                   None \<Rightarrow> None
                 | Some s \<Rightarrow> (case py_int s of
                               None \<Rightarrow> None
                             | Some v \<Rightarrow> if - (2 ^ 63) \<le> v \<and> v < 2 ^ 63 then Some v else None))"

fun astype_int :: "string option list \<Rightarrow> error + int list" where
  "astype_int [] = Inr []"
| "astype_int (c # cs) =
     (case to_int64 c of
        None \<Rightarrow> Inl CastError
      | Some v \<Rightarrow> (case astype_int cs of Inl e \<Rightarrow> Inl e | Inr vs \<Rightarrow> Inr (v # vs)))"

definition add_goals :: "raw_match \<Rightarrow> int \<Rightarrow> int \<Rightarrow> match" where
  "add_goals r hg ag =
     \<lparr>Team_1 = Team_1 r, Team_2 = Team_2 r, FT = FT r, home_goals = hg, away_goals = ag\<rparr>"

definition parse_match_results :: "raw_match list \<Rightarrow> error + match list" where
  "parse_match_results df =
     (case goals_column df 0 of
        Inl e \<Rightarrow> Inl e
      | Inr c0 \<Rightarrow>
          (case astype_int c0 of
             Inl e \<Rightarrow> Inl e
           | Inr hgs \<Rightarrow>
               (case goals_column df 1 of
                  Inl e \<Rightarrow> Inl e
                | Inr c1 \<Rightarrow>
                    (case astype_int c1 of
                       Inl e \<Rightarrow> Inl e
                     | Inr ags \<Rightarrow> Inr (map (\<lambda>(r, hg, ag). add_goals r hg ag) (zip df (zip hgs ags)))))))"

section \<open>summarise_season\<close>

text \<open>
  The per-team accumulator of the \<open>defaultdict\<close>. The dictionary keeps its keys in the
  order of their first use, so it is an association list with distinct keys.
\<close>

record stats =
  points :: int
  wins :: int
  draws :: int
  losses :: int
  goals_for :: int
  goals_against :: int

definition default_stats :: stats where
  "default_stats =
     \<lparr>points = 0, wins = 0, draws = 0, losses = 0, goals_for = 0, goals_against = 0\<rparr>"

type_synonym teams = "(string \<times> stats) list"

text \<open>
  \<open>teams[k][field] += v\<close>: a key that is not there yet is appended with the default
  entry first.
\<close>

definition update_team :: "string \<Rightarrow> (stats \<Rightarrow> stats) \<Rightarrow> teams \<Rightarrow> teams" where
  "update_team k f d =
     (if k \<in> set (map fst d)
      then map (\<lambda>(k', s). if k' = k then (k', f s) else (k', s)) d
      else d @ [(k, f default_stats)])"

definition match_step :: "match \<Rightarrow> teams \<Rightarrow> teams" where
  "match_step row d0 =
     (let home = Team_1 row; away = Team_2 row;
          hg = home_goals row; ag = away_goals row;
          d1 = update_team home (\<lambda>s. s\<lparr>goals_for := goals_for s + hg\<rparr>) d0;
          d2 = update_team home (\<lambda>s. s\<lparr>goals_against := goals_against s + ag\<rparr>) d1;
          d3 = update_team away (\<lambda>s. s\<lparr>goals_for := goals_for s + ag\<rparr>) d2;
          d4 = update_team away (\<lambda>s. s\<lparr>goals_against := goals_against s + hg\<rparr>) d3
      in if hg > ag then
           update_team away (\<lambda>s. s\<lparr>losses := losses s + 1\<rparr>)
             (update_team home (\<lambda>s. s\<lparr>wins := wins s + 1\<rparr>)
               (update_team home (\<lambda>s. s\<lparr>points := points s + 3\<rparr>) d4))
         else if hg < ag then
           update_team home (\<lambda>s. s\<lparr>losses := losses s + 1\<rparr>)
             (update_team away (\<lambda>s. s\<lparr>wins := wins s + 1\<rparr>)
               (update_team away (\<lambda>s. s\<lparr>points := points s + 3\<rparr>) d4))
         else
           update_team away (\<lambda>s. s\<lparr>draws := draws s + 1\<rparr>)
             (update_team home (\<lambda>s. s\<lparr>draws := draws s + 1\<rparr>)
               (update_team away (\<lambda>s. s\<lparr>points := points s + 1\<rparr>)
                 (update_team home (\<lambda>s. s\<lparr>points := points s + 1\<rparr>) d4))))"

fun accumulate :: "match list \<Rightarrow> teams \<Rightarrow> teams" where
  "accumulate [] d = d"
| "accumulate (row # rows) d = accumulate rows (match_step row d)"

text \<open>A row of the summary before and after the position column is added.\<close>

record team_row = stats +
  team :: string
  goal_diff :: int

record standing = team_row +
  position :: int

definition build_row :: "string \<times> stats \<Rightarrow> team_row" where
  "build_row = (\<lambda>(t, s).
     \<lparr>points = points s, wins = wins s, draws = draws s, losses = losses s,
      goals_for = goals_for s, goals_against = goals_against s,
      team = t, goal_diff = goals_for s - goals_against s\<rparr>)"

text \<open>
  \<open>sort_values\<close> on several columns is the stable lexicographic sort of pandas; all
  three keys descend, so each key is negated.
\<close>

definition sort_desc :: "team_row list \<Rightarrow> team_row list" where
  "sort_desc rows = sort_key (\<lambda>r. (- points r, - goal_diff r, - goals_for r)) rows"

definition with_position :: "nat \<times> team_row \<Rightarrow> standing" where
  "with_position = (\<lambda>(i, r).
     \<lparr>points = points r, wins = wins r, draws = draws r, losses = losses r,
      goals_for = goals_for r, goals_against = goals_against r,
      team = team r, goal_diff = goal_diff r, position = int i + 1\<rparr>)"

text \<open>
  A frame built from no rows has no columns, and sorting it by \<open>points\<close> raises a
  KeyError.
\<close>

definition summarise_season :: "match list \<Rightarrow> error + standing list" where
  "summarise_season matches =
     (let data = map build_row (accumulate matches [])
      in if data = [] then Inl KeyError
         else Inr (map with_position (enumerate 0 (sort_desc data))))"

section \<open>prepare_training_data\<close>

text \<open>
  The seven feature columns of one training row. The values of a team with a row in the
  reference season are integers; the default of a promoted team is a mean, so the
  columns are rational here (the float64 of pandas, without its rounding).
\<close>

record features =
  feat_points :: rat
  feat_wins :: rat
  feat_draws :: rat
  feat_losses :: rat
  feat_goals_for :: rat
  feat_goals_against :: rat
  feat_goal_diff :: rat

definition row_features :: "standing \<Rightarrow> features" where
  "row_features r =
     \<lparr>feat_points = of_int (points r), feat_wins = of_int (wins r),
      feat_draws = of_int (draws r), feat_losses = of_int (losses r),
      feat_goals_for = of_int (goals_for r), feat_goals_against = of_int (goals_against r),
      feat_goal_diff = of_int (goal_diff r)\<rparr>"

text \<open>
  \<open>sort_values([...], ascending=[True, True, True]).head(3)\<close>: the first three rows of
  the stable ascending sort, or all rows when there are fewer than three.
\<close>

definition bottom_three :: "standing list \<Rightarrow> standing list" where
  "bottom_three summary =
     take 3 (sort_key (\<lambda>r. (points r, goal_diff r, goals_for r)) summary)"

text \<open>
  \<open>.mean()\<close> of a column. The frame it is taken of is never empty here, since a summary
  has a row for each side of its first match.
\<close>

definition mean :: "int list \<Rightarrow> rat" where
  "mean xs = of_int (sum_list xs) / of_nat (length xs)"

definition mean_features :: "standing list \<Rightarrow> features" where
  "mean_features rows =
     \<lparr>feat_points = mean (map points rows), feat_wins = mean (map wins rows),
      feat_draws = mean (map draws rows), feat_losses = mean (map losses rows),
      feat_goals_for = mean (map goals_for rows),
      feat_goals_against = mean (map goals_against rows),
      feat_goal_diff = mean (map goal_diff rows)\<rparr>"

text \<open>
  The features of one team of the current season: its row of the previous season when
  it has one, the default otherwise.
\<close>

definition team_features :: "standing list \<Rightarrow> features \<Rightarrow> string \<Rightarrow> features" where
  "team_features prev_summary default_features t =
     (case find (\<lambda>r. team r = t) prev_summary of
        Some r \<Rightarrow> row_features r
      | None \<Rightarrow> default_features)"

text \<open>
  The body of the loop over season pairs: one pair of feature row and target per row of
  the current season, in the order of its standing. The source appends to
  \<open>feature_rows\<close> and \<open>target_rows\<close> in step; the pairs are split at the end.
\<close>

definition transition_examples :: "standing list \<Rightarrow> standing list \<Rightarrow> (features \<times> int) list" where
  "transition_examples prev_summary curr_summary =
     (let default_features = mean_features (bottom_three prev_summary)
      in map (\<lambda>row. (team_features prev_summary default_features (team row), position row))
           curr_summary)"

text \<open>Reading one season file, parsing it and summarising it.\<close>

definition season_summary ::
  "(string \<Rightarrow> error + raw_match list) \<Rightarrow> string \<Rightarrow> error + standing list" where
  "season_summary read_csv file_path =
     (case read_csv file_path of
        Inl e \<Rightarrow> Inl e
      | Inr raw \<Rightarrow>
          (case parse_match_results raw of
             Inl e \<Rightarrow> Inl e
           | Inr parsed \<Rightarrow> summarise_season parsed))"

text \<open>The first loop: the dictionary \<open>season_summaries\<close>, keyed by file path.\<close>

fun load_summaries ::
  "(string \<Rightarrow> error + raw_match list) \<Rightarrow> string list \<Rightarrow> (string \<rightharpoonup> standing list)
     \<Rightarrow> error + (string \<rightharpoonup> standing list)" where
  "load_summaries read_csv [] season_summaries = Inr season_summaries"
| "load_summaries read_csv (file_path # rest) season_summaries =
     (case season_summary read_csv file_path of
        Inl e \<Rightarrow> Inl e
      | Inr summary \<Rightarrow> load_summaries read_csv rest (season_summaries(file_path \<mapsto> summary)))"

text \<open>The second loop, over \<open>range(len(files_sorted) - 1)\<close>.\<close>

fun training_examples ::
  "(string \<rightharpoonup> standing list) \<Rightarrow> string list \<Rightarrow> error + (features \<times> int) list" where
  "training_examples season_summaries (p # q # rest) =
     (case season_summaries p of
        None \<Rightarrow> Inl KeyError
      | Some prev_summary \<Rightarrow>
          (case season_summaries q of
             None \<Rightarrow> Inl KeyError
           | Some curr_summary \<Rightarrow>
               (case training_examples season_summaries (q # rest) of
                  Inl e \<Rightarrow> Inl e
                | Inr examples \<Rightarrow>
                    Inr (transition_examples prev_summary curr_summary @ examples))))"
| "training_examples season_summaries [p] = Inr []"
| "training_examples season_summaries [] = Inr []"

definition promoted :: "string list" where
  "promoted = [''Leeds United'', ''Burnley'', ''Sunderland'']"

text \<open>
  The rows of \<open>latest_features_df\<close>, each with its index label: every team of the last
  summary with its own row (\<open>loc[team]\<close> of a team of the index), then the promoted names
  that are not among them.
\<close>

definition latest_features :: "standing list \<Rightarrow> (string \<times> features) list" where
  "latest_features last_summary =
     (let default_features_last = mean_features (bottom_three last_summary);
          latest_teams = map team last_summary
      in map (\<lambda>r. (team r, row_features r)) last_summary
         @ map (\<lambda>t. (t, default_features_last))
             (filter (\<lambda>t. t \<notin> set latest_teams) promoted))"

text \<open>
  The result is \<open>(X_train, y_train, latest_features_df)\<close>. \<open>files_sorted[-1]\<close> of an
  empty list is an IndexError.
\<close>

definition prepare_training_data ::
  "(string \<Rightarrow> error + raw_match list) \<Rightarrow> string list
     \<Rightarrow> error + (features list \<times> int list \<times> (string \<times> features) list)" where
  "prepare_training_data read_csv season_files =
     (case load_summaries read_csv season_files Map.empty of
        Inl e \<Rightarrow> Inl e
      | Inr season_summaries \<Rightarrow>
          (case training_examples season_summaries season_files of
             Inl e \<Rightarrow> Inl e
           | Inr examples \<Rightarrow>
               if season_files = [] then Inl IndexError
               else (case season_summaries (last season_files) of
                       None \<Rightarrow> Inl KeyError
                     | Some last_summary \<Rightarrow>
                         Inr (map fst examples, map snd examples,
                              latest_features last_summary))))"

section \<open>predict_league_table: the expected positions\<close>

text \<open>
  \<open>probas\<close> is an array of float64 and \<open>classes\<close> an array of int64. A finite float64
  is represented by the rational number it denotes, and \<open>None\<close> stands for an
  infinity or a NaN.

  Rounding to nearest, ties to even: the value is brought to an integer multiple of the
  spacing of its binade (53 significant bits, and the fixed spacing \<open>2 ^ -1074\<close> below
  \<open>2 ^ -1022\<close>); a result of magnitude \<open>2 ^ 1024\<close> or more is infinite.
\<close>

definition rne :: "rat \<Rightarrow> int" where
  "rne m = (let f = \<lfloor>m\<rfloor>; d = m - of_int f
            in if d < 1 / 2 then f else if 1 / 2 < d then f + 1
               else if even f then f else f + 1)"

text \<open>
  The exponent of the binade of \<open>x\<close>, not below that of the subnormal numbers.
\<close>

definition expo :: "rat \<Rightarrow> int" where
  "expo x = max (bitlen \<lfloor>\<bar>x\<bar> * 2 ^ 1074\<rfloor> - 1075) (- 1022)"

definition round64 :: "rat \<Rightarrow> rat option" where
  "round64 x = (let q = 2 powi (expo x - 52); r = of_int (rne (x / q)) * q
                in if \<bar>r\<bar> < 2 ^ 1024 then Some r else None)"

text \<open>The product and the sum of two float64 values.\<close>

definition fmul :: "rat option \<Rightarrow> rat option \<Rightarrow> rat option" where
  "fmul a b = (case a of None \<Rightarrow> None
               | Some x \<Rightarrow> (case b of None \<Rightarrow> None | Some y \<Rightarrow> round64 (x * y)))"

definition fadd :: "rat option \<Rightarrow> rat option \<Rightarrow> rat option" where
  "fadd a b = (case a of None \<Rightarrow> None
               | Some x \<Rightarrow> (case b of None \<Rightarrow> None | Some y \<Rightarrow> round64 (x + y)))"

text \<open>
  \<open>row.dot(classes)\<close>: the class labels are converted to float64, and the products are
  accumulated from the left, starting from zero, each product and each sum rounded. A
  row has one probability per class label (numpy raises on other shapes).
\<close>

definition dot :: "rat list \<Rightarrow> int list \<Rightarrow> rat option" where
  "dot ps cs =
     foldl (\<lambda>acc (p, c). fadd acc (fmul (Some p) (round64 (of_int c)))) (Some 0) (zip ps cs)"

text \<open>\<open>probas.dot(classes)\<close>: one expected position per row of \<open>probas\<close>.\<close>

definition exp_positions :: "rat list list \<Rightarrow> int list \<Rightarrow> rat option list" where
  "exp_positions probas classes = map (\<lambda>ps. dot ps classes) probas"

section \<open>Auxiliary definitions for the proofs\<close>

text \<open>The entry of a team in the dictionary, the default entry when it has none.\<close>

definition lookup_team :: "teams \<Rightarrow> string \<Rightarrow> stats" where
  "lookup_team d k = (case map_of d k of None \<Rightarrow> default_stats | Some s \<Rightarrow> s)"

definition total_points :: "teams \<Rightarrow> int" where
  "total_points d = sum_list (map (\<lambda>(k, s). points s) d)"

definition balanced :: "stats \<Rightarrow> bool" where
  "balanced s \<longleftrightarrow> points s = 3 * wins s + draws s"

definition played :: "stats \<Rightarrow> int" where
  "played s = wins s + draws s + losses s"

text \<open>
  The goal counts that the first two segments of a score give: none when the score is
  missing, has fewer than two segments, or one of the two is no 64-bit integer.
\<close>

definition first_two_ints :: "raw_match \<Rightarrow> (int \<times> int) option" where
  "first_two_ints r =
     (case FT r of
        None \<Rightarrow> None
      | Some s \<Rightarrow>
          (case split_on CHR ''-'' s of
             a # b # rest \<Rightarrow>
               (case to_int64 (Some a) of
                  None \<Rightarrow> None
                | Some hg \<Rightarrow> (case to_int64 (Some b) of None \<Rightarrow> None | Some ag \<Rightarrow> Some (hg, ag)))
           | _ \<Rightarrow> None))"


text \<open>
  The rounded value before the test for overflow, the numbers that are integer
  multiples of the least positive float64, the unit roundoff, one step of the dot
  product, and the bound on its rounding error: for \<open>n\<close> class labels, \<open>n + 2\<close> roundings
  of a sum of magnitude at most the greatest label's.
\<close>

definition rnd :: "rat \<Rightarrow> rat" where
  "rnd x = of_int (rne (x / 2 powi (expo x - 52))) * 2 powi (expo x - 52)"

definition on_grid :: "rat \<Rightarrow> bool" where
  "on_grid x \<longleftrightarrow> (\<exists>k::int. x * 2 ^ 1074 = of_int k)"

definition ulp53 :: rat where "ulp53 = 1 / 2 ^ 53"

definition dot_step :: "rat option \<Rightarrow> rat \<times> int \<Rightarrow> rat option" where
  "dot_step acc = (\<lambda>(p, c). fadd acc (fmul (Some p) (round64 (of_int c))))"

definition rounding_slack :: "int list \<Rightarrow> rat" where
  "rounding_slack classes =
     ((1 + 1 / 2 ^ 53) ^ (length classes + 2) - 1) * of_int (Max (abs ` set classes))"

section \<open>Example data\<close>

definition played_match :: "string \<Rightarrow> string \<Rightarrow> int \<Rightarrow> int \<Rightarrow> match" where
  "played_match h a hg ag =
     \<lparr>Team_1 = h, Team_2 = a, FT = None, home_goals = hg, away_goals = ag\<rparr>"

text \<open>Three matches of four teams: two home wins and a draw.\<close>

definition toy_season :: "match list" where
  "toy_season =
     [played_match ''A'' ''B'' 2 0, played_match ''C'' ''D'' 1 0, played_match ''B'' ''D'' 1 1]"

definition toy_table :: "standing list" where
  "toy_table =
     [\<lparr>points = 3, wins = 1, draws = 0, losses = 0, goals_for = 2, goals_against = 0,
       team = ''A'', goal_diff = 2, position = 1\<rparr>,
      \<lparr>points = 3, wins = 1, draws = 0, losses = 0, goals_for = 1, goals_against = 0,
       team = ''C'', goal_diff = 1, position = 2\<rparr>,
      \<lparr>points = 1, wins = 0, draws = 1, losses = 1, goals_for = 1, goals_against = 2,
       team = ''D'', goal_diff = - 1, position = 3\<rparr>,
      \<lparr>points = 1, wins = 0, draws = 1, losses = 1, goals_for = 1, goals_against = 3,
       team = ''B'', goal_diff = - 2, position = 4\<rparr>]"

text \<open>A table whose only row names the same team on both sides.\<close>

definition self_match :: "match list" where
  "self_match = [played_match ''A'' ''A'' 1 0]"

definition self_row :: standing where
  "self_row =
     \<lparr>points = 3, wins = 1, draws = 0, losses = 1, goals_for = 1, goals_against = 1,
      team = ''A'', goal_diff = 0, position = 1\<rparr>"

text \<open>
  Three season files: two teams, four teams, and a file with a header and no row.
\<close>

definition raw_row :: "string \<Rightarrow> string \<Rightarrow> string \<Rightarrow> raw_match" where
  "raw_row h a score = \<lparr>Team_1 = h, Team_2 = a, FT = Some score\<rparr>"

definition toy_csv :: "string \<Rightarrow> error + raw_match list" where
  "toy_csv file_path =
     (if file_path = ''s1'' then Inr [raw_row ''A'' ''B'' ''1-0'']
      else if file_path = ''s2'' then
        Inr [raw_row ''A'' ''C'' ''2-2'', raw_row ''Burnley'' ''A'' ''0-1'',
             raw_row ''C'' ''E'' ''2-0'']
      else if file_path = ''s3'' then Inr []
      else Inl ReadError)"

definition s1_table :: "standing list" where
  "s1_table =
     [\<lparr>points = 3, wins = 1, draws = 0, losses = 0, goals_for = 1, goals_against = 0,
       team = ''A'', goal_diff = 1, position = 1\<rparr>,
      \<lparr>points = 0, wins = 0, draws = 0, losses = 1, goals_for = 0, goals_against = 1,
       team = ''B'', goal_diff = - 1, position = 2\<rparr>]"







definition s1_latest :: "(string \<times> features) list" where
  "s1_latest =
     [(''A'',
       \<lparr>feat_points = 3, feat_wins = 1, feat_draws = 0, feat_losses = 0,
        feat_goals_for = 1, feat_goals_against = 0, feat_goal_diff = 1\<rparr>),
      (''B'',
       \<lparr>feat_points = 0, feat_wins = 0, feat_draws = 0, feat_losses = 1,
        feat_goals_for = 0, feat_goals_against = 1, feat_goal_diff = - 1\<rparr>),
      (''Leeds United'',
       \<lparr>feat_points = 3 / 2, feat_wins = 1 / 2, feat_draws = 0, feat_losses = 1 / 2,
        feat_goals_for = 1 / 2, feat_goals_against = 1 / 2, feat_goal_diff = 0\<rparr>),
      (''Burnley'',
       \<lparr>feat_points = 3 / 2, feat_wins = 1 / 2, feat_draws = 0, feat_losses = 1 / 2,
        feat_goals_for = 1 / 2, feat_goals_against = 1 / 2, feat_goal_diff = 0\<rparr>),
      (''Sunderland'',
       \<lparr>feat_points = 3 / 2, feat_wins = 1 / 2, feat_draws = 0, feat_losses = 1 / 2,
        feat_goals_for = 1 / 2, feat_goals_against = 1 / 2, feat_goal_diff = 0\<rparr>)]"

text \<open>One row of probabilities over two class labels.\<close>

definition toy_probas :: "rat list list" where
  "toy_probas = [[1 / 4, 3 / 4]]"

definition toy_classes :: "int list" where
  "toy_classes = [1, 2]"

text \<open>
  One row of three float64 probabilities that sum to one, nearly all of it on the least
  of three class labels.
\<close>

definition cex_probas :: "rat list list" where
  "cex_probas = [[1 - 1 / 2 ^ 53, 1 / 2 ^ 54, 1 / 2 ^ 54]]"

definition cex_classes :: "int list" where
  "cex_classes = [9, 11, 14]"

section \<open>Parsing the scores\<close>

lemma first_two_ints_cells:
  "first_two_ints r = Some (hg, ag) \<longleftrightarrow>
     to_int64 (cell 0 r) = Some hg \<and> to_int64 (cell 1 r) = Some ag"
  by (auto simp: first_two_ints_def cell_def segments_def to_int64_def
      split: option.splits list.splits if_splits)

lemma astype_int_Inr_iff:
  "astype_int cs = Inr vs \<longleftrightarrow> map to_int64 cs = map Some vs"
proof (induction cs arbitrary: vs)
  case Nil
  then show ?case by auto
next
  case (Cons c cs)
  show ?case
  proof (cases "to_int64 c")
    case None
    then show ?thesis by (cases vs) auto
  next
    case (Some v)
    show ?thesis
    proof (cases vs)
      case Nil
      with Some show ?thesis by (auto split: sum.splits)
    next
      case (Cons w ws)
      with Some Cons.IH[of ws] show ?thesis by (auto split: sum.splits)
    qed
  qed
qed

lemma less_ncols_iff:
  "k < ncols df \<longleftrightarrow>
     (\<exists>r \<in> set df. k < (case segments r of None \<Rightarrow> 1 | Some segs \<Rightarrow> length segs))"
  unfolding ncols_def by (induction df) auto

lemma cell_Some_less:
  "to_int64 (cell k r) = Some v \<Longrightarrow> k < (case segments r of None \<Rightarrow> 1 | Some segs \<Rightarrow> length segs)"
  by (auto simp: cell_def to_int64_def split: option.splits if_splits)

lemma parse_match_results_InrD:
  assumes "parse_match_results df = Inr out"
  shows "\<exists>hgs ags. 1 < ncols df \<and> astype_int (map (cell 0) df) = Inr hgs
           \<and> astype_int (map (cell 1) df) = Inr ags
           \<and> out = map (\<lambda>(r, hg, ag). add_goals r hg ag) (zip df (zip hgs ags))"
proof -
  from assms obtain c0 where c0: "goals_column df 0 = Inr c0"
    by (cases "goals_column df 0") (simp_all add: parse_match_results_def)
  from assms c0 obtain hgs where hgs: "astype_int c0 = Inr hgs"
    by (cases "astype_int c0") (simp_all add: parse_match_results_def)
  from assms c0 hgs obtain c1 where c1: "goals_column df 1 = Inr c1"
    by (cases "goals_column df 1") (simp_all add: parse_match_results_def)
  from assms c0 hgs c1 obtain ags where ags: "astype_int c1 = Inr ags"
    by (cases "astype_int c1") (simp_all add: parse_match_results_def)
  from assms c0 hgs c1 ags
  have out: "out = map (\<lambda>(r, hg, ag). add_goals r hg ag) (zip df (zip hgs ags))"
    by (simp add: parse_match_results_def)
  from c1 have n: "1 < ncols df" and c1': "c1 = map (cell 1) df"
    by (auto simp: goals_column_def split: if_splits)
  from c0 have c0': "c0 = map (cell 0) df"
    by (auto simp: goals_column_def split: if_splits)
  from n hgs ags out show ?thesis
    unfolding c0' c1' by blast
qed

lemma parse_match_results_InrI:
  assumes "1 < ncols df" and "astype_int (map (cell 0) df) = Inr hgs"
    and "astype_int (map (cell 1) df) = Inr ags"
  shows "parse_match_results df = Inr (map (\<lambda>(r, hg, ag). add_goals r hg ag) (zip df (zip hgs ags)))"
  using assms by (simp add: parse_match_results_def goals_column_def)

lemma map_Some_nth:
  "map f xs = map Some vs \<Longrightarrow> i < length xs \<Longrightarrow> f (xs ! i) = Some (vs ! i)"
proof -
  assume eq: "map f xs = map Some vs" and i: "i < length xs"
  from eq have len: "length vs = length xs" by (metis length_map)
  from eq have "map f xs ! i = map Some vs ! i" by simp
  with i len show ?thesis by simp
qed

lemma parse_match_results_Inr_iff:
  "parse_match_results df = Inr out \<longleftrightarrow>
     df \<noteq> [] \<and> map first_two_ints df = map (\<lambda>m. Some (home_goals m, away_goals m)) out
     \<and> map Team_1 out = map Team_1 df \<and> map Team_2 out = map Team_2 df \<and> map FT out = map FT df"
  (is "?lhs \<longleftrightarrow> ?rhs")
proof
  assume ?lhs
  from parse_match_results_InrD[OF this] obtain hgs ags where c1: "1 < ncols df"
    and h0: "astype_int (map (cell 0) df) = Inr hgs"
    and a0: "astype_int (map (cell 1) df) = Inr ags"
    and out: "out = map (\<lambda>(r, hg, ag). add_goals r hg ag) (zip df (zip hgs ags))"
    by blast
  from h0 have h: "map (\<lambda>r. to_int64 (cell 0 r)) df = map Some hgs"
    by (simp add: astype_int_Inr_iff comp_def)
  from a0 have a: "map (\<lambda>r. to_int64 (cell 1 r)) df = map Some ags"
    by (simp add: astype_int_Inr_iff comp_def)
  from h have lh: "length hgs = length df" by (metis length_map)
  from a have la: "length ags = length df" by (metis length_map)
  from c1 have ne: "df \<noteq> []" by (auto simp: less_ncols_iff)
  have nth: "first_two_ints (df ! i) = Some (hgs ! i, ags ! i)" if "i < length df" for i
    using map_Some_nth[OF h that] map_Some_nth[OF a that]
    by (simp add: first_two_ints_cells)
  have "map first_two_ints df = map (\<lambda>m. Some (home_goals m, away_goals m)) out"
    unfolding out using lh la nth
    by (intro nth_equalityI) (simp_all add: add_goals_def)
  moreover have "map Team_1 out = map Team_1 df"
    unfolding out using lh la by (intro nth_equalityI) (simp_all add: add_goals_def)
  moreover have "map Team_2 out = map Team_2 df"
    unfolding out using lh la by (intro nth_equalityI) (simp_all add: add_goals_def)
  moreover have "map FT out = map FT df"
    unfolding out using lh la by (intro nth_equalityI) (simp_all add: add_goals_def)
  ultimately show ?rhs using ne by simp
next
  assume r: ?rhs
  then have ne: "df \<noteq> []"
    and ft: "map first_two_ints df = map (\<lambda>m. Some (home_goals m, away_goals m)) out"
    and t1: "map Team_1 out = map Team_1 df" and t2: "map Team_2 out = map Team_2 df"
    and tf: "map FT out = map FT df"
    by simp_all
  from t1 have len: "length out = length df" by (metis length_map)
  have two: "first_two_ints (df ! i) = Some (home_goals (out ! i), away_goals (out ! i))"
    if "i < length df" for i
  proof -
    from ft have "map first_two_ints df ! i = map (\<lambda>m. Some (home_goals m, away_goals m)) out ! i"
      by simp
    with that len show ?thesis by simp
  qed
  have cells: "to_int64 (cell 0 (df ! i)) = Some (home_goals (out ! i))"
    "to_int64 (cell 1 (df ! i)) = Some (away_goals (out ! i))" if "i < length df" for i
    using two[OF that] by (simp_all add: first_two_ints_cells)
  have h: "map to_int64 (map (cell 0) df) = map Some (map home_goals out)"
    using len cells(1) by (intro nth_equalityI) simp_all
  have a: "map to_int64 (map (cell 1) df) = map Some (map away_goals out)"
    using len cells(2) by (intro nth_equalityI) simp_all
  from ne have "0 < length df" by simp
  from cells(2)[OF this] have "to_int64 (cell 1 (df ! 0)) = Some (away_goals (out ! 0))" .
  from cell_Some_less[OF this] ne have c1: "1 < ncols df"
    unfolding less_ncols_iff by (intro bexI[of _ "df ! 0"]) simp_all
  have eq: "map (\<lambda>(r, hg, ag). add_goals r hg ag)
              (zip df (zip (map home_goals out) (map away_goals out))) = out"
  proof (intro nth_equalityI)
    show "length (map (\<lambda>(r, hg, ag). add_goals r hg ag)
            (zip df (zip (map home_goals out) (map away_goals out)))) = length out"
      using len by simp
  next
    fix i
    assume "i < length (map (\<lambda>(r, hg, ag). add_goals r hg ag)
            (zip df (zip (map home_goals out) (map away_goals out))))"
    then have i: "i < length df" using len by simp
    from t1 have "map Team_1 out ! i = map Team_1 df ! i" by simp
    moreover from t2 have "map Team_2 out ! i = map Team_2 df ! i" by simp
    moreover from tf have "map FT out ! i = map FT df ! i" by simp
    ultimately have "Team_1 (out ! i) = Team_1 (df ! i)" "Team_2 (out ! i) = Team_2 (df ! i)"
      "FT (out ! i) = FT (df ! i)"
      using i len by simp_all
    with i len show "map (\<lambda>(r, hg, ag). add_goals r hg ag)
            (zip df (zip (map home_goals out) (map away_goals out))) ! i = out ! i"
      by (simp add: add_goals_def)
  qed
  from parse_match_results_InrI[OF c1 h[unfolded astype_int_Inr_iff[symmetric]]
      a[unfolded astype_int_Inr_iff[symmetric]]]
  show ?lhs unfolding eq .
qed

lemma parse_match_results_nonempty:
  assumes "parse_match_results df = Inr ms"
  shows "ms \<noteq> []"
proof -
  from assms have "df \<noteq> []" and "map Team_1 ms = map Team_1 df"
    by (simp_all add: parse_match_results_Inr_iff)
  then show ?thesis by auto
qed

lemma parse_match_results_empty: "parse_match_results [] = Inl KeyError"
  by (simp add: parse_match_results_def goals_column_def ncols_def)

text \<open>
  Claim C4, as stated: parsing fails when a score does not split into exactly two
  segments. The score \<open>1-2-3\<close> splits into three; the first two become the goal
  counts and the third is never read.
\<close>

theorem parse_match_results_three_segments_counterexample:
  "split_on CHR ''-'' ''1-2-3'' = [''1'', ''2'', ''3'']
   \<and> parse_match_results [raw_row ''A'' ''B'' ''1-2-3''] =
       Inr [\<lparr>Team_1 = ''A'', Team_2 = ''B'', FT = Some ''1-2-3'', home_goals = 1, away_goals = 2\<rparr>]"
  by code_simp

text \<open>
  Claim C4, amended. Parsing succeeds exactly when the table has a row and every row has
  a score whose first two segments are 64-bit integers; segments after the second are
  ignored, and a table of no rows fails with a KeyError. When it succeeds, the result
  is the table with its three columns kept and the two goal columns set to those
  integers.
\<close>

theorem parse_match_results_succeeds_iff:
  "((\<exists>out. parse_match_results df = Inr out) \<longleftrightarrow>
      df \<noteq> [] \<and> (\<forall>r \<in> set df. first_two_ints r \<noteq> None))
   \<and> (parse_match_results df = Inr out \<longleftrightarrow>
        df \<noteq> []
      \<and> map first_two_ints df = map (\<lambda>m. Some (home_goals m, away_goals m)) out
      \<and> map Team_1 out = map Team_1 df \<and> map Team_2 out = map Team_2 df
      \<and> map FT out = map FT df)"
proof (intro conjI)
  show "parse_match_results df = Inr out \<longleftrightarrow>
        df \<noteq> []
      \<and> map first_two_ints df = map (\<lambda>m. Some (home_goals m, away_goals m)) out
      \<and> map Team_1 out = map Team_1 df \<and> map Team_2 out = map Team_2 df
      \<and> map FT out = map FT df"
    by (rule parse_match_results_Inr_iff)
  show "(\<exists>out. parse_match_results df = Inr out) \<longleftrightarrow>
      df \<noteq> [] \<and> (\<forall>r \<in> set df. first_two_ints r \<noteq> None)"
  proof
    assume "\<exists>out. parse_match_results df = Inr out"
    then obtain res where res: "parse_match_results df = Inr res" by blast
    then have ne: "df \<noteq> []"
      and ft: "map first_two_ints df = map (\<lambda>m. Some (home_goals m, away_goals m)) res"
      by (simp_all add: parse_match_results_Inr_iff)
    have "first_two_ints r \<noteq> None" if "r \<in> set df" for r
    proof -
      from that have "first_two_ints r \<in> set (map first_two_ints df)" by simp
      then show ?thesis unfolding ft by auto
    qed
    with ne show "df \<noteq> [] \<and> (\<forall>r \<in> set df. first_two_ints r \<noteq> None)" by simp
  next
    assume a: "df \<noteq> [] \<and> (\<forall>r \<in> set df. first_two_ints r \<noteq> None)"
    let ?res = "map (\<lambda>r. add_goals r (fst (the (first_two_ints r))) (snd (the (first_two_ints r)))) df"
    have "map first_two_ints df = map (\<lambda>m. Some (home_goals m, away_goals m)) ?res"
      using a by (auto simp: add_goals_def)
    then have "parse_match_results df = Inr ?res"
      using a by (simp add: parse_match_results_Inr_iff add_goals_def comp_def)
    then show "\<exists>out. parse_match_results df = Inr out" by blast
  qed
qed

theorem parse_match_results_succeeds_iff_witness:
  "[raw_row ''A'' ''B'' ''3-1''] \<noteq> []
   \<and> first_two_ints (raw_row ''A'' ''B'' ''3-1'') = Some (3, 1)
   \<and> parse_match_results [raw_row ''A'' ''B'' ''3-1''] =
       Inr [\<lparr>Team_1 = ''A'', Team_2 = ''B'', FT = Some ''3-1'', home_goals = 3, away_goals = 1\<rparr>]"
proof -
  have f: "first_two_ints (raw_row ''A'' ''B'' ''3-1'') = Some (3, 1)" by code_simp
  from parse_match_results_succeeds_iff[of "[raw_row ''A'' ''B'' ''3-1'']"
      "[\<lparr>Team_1 = ''A'', Team_2 = ''B'', FT = Some ''3-1'', home_goals = 3, away_goals = 1\<rparr>]"] f
  show ?thesis by (simp add: raw_row_def)
qed

section \<open>The dictionary of team statistics\<close>

lemma keys_update_team:
  "map fst (update_team k f d) = (if k \<in> set (map fst d) then map fst d else map fst d @ [k])"
  by (auto simp: update_team_def split: prod.splits)

lemma distinct_update_team:
  "distinct (map fst d) \<Longrightarrow> distinct (map fst (update_team k f d))"
  by (simp add: keys_update_team)

lemma map_of_update_present:
  "map_of (map (\<lambda>(k', s). if k' = k then (k', f s) else (k', s)) d) k' =
     (if k' = k then map_option f (map_of d k') else map_of d k')"
  by (induction d) auto

lemma lookup_update_team:
  "lookup_team (update_team k f d) k' = (if k' = k then f (lookup_team d k) else lookup_team d k')"
proof (cases "k \<in> set (map fst d)")
  case True
  then obtain s where "map_of d k = Some s"
    by (metis map_of_eq_None_iff not_Some_eq set_map)
  with True show ?thesis
    by (simp add: lookup_team_def update_team_def map_of_update_present split: option.splits)
next
  case False
  then have "map_of d k = None"
    by (simp add: map_of_eq_None_iff)
  with False show ?thesis
    by (auto simp: lookup_team_def update_team_def map_add_def split: option.splits)
qed

lemma total_points_update_present:
  "distinct (map fst d) \<Longrightarrow> map_of d k = Some s \<Longrightarrow>
   sum_list (map (\<lambda>(k, s). points s) (map (\<lambda>(k', s). if k' = k then (k', f s) else (k', s)) d))
     = sum_list (map (\<lambda>(k, s). points s) d) + points (f s) - points s"
proof (induction d)
  case Nil
  then show ?case by simp
next
  case (Cons a d)
  obtain ka sa where a: "a = (ka, sa)" by (cases a)
  show ?case
  proof (cases "ka = k")
    case True
    with Cons.prems a have "k \<notin> fst ` set d" "sa = s" by auto
    then have "map (\<lambda>(k', s). if k' = k then (k', f s) else (k', s)) d = d"
      by (intro map_idI) (force split: prod.splits)
    with True a \<open>sa = s\<close> show ?thesis by simp
  next
    case False
    with Cons a show ?thesis by simp
  qed
qed

lemma total_points_update_team:
  "distinct (map fst d) \<Longrightarrow>
   total_points (update_team k f d) =
     total_points d + points (f (lookup_team d k)) - points (lookup_team d k)"
proof (cases "k \<in> set (map fst d)")
  case True
  assume dist: "distinct (map fst d)"
  from True obtain s where s: "map_of d k = Some s"
    by (metis map_of_eq_None_iff not_Some_eq set_map)
  show ?thesis
    using True total_points_update_present[OF dist s, of f]
    by (simp add: total_points_def update_team_def lookup_team_def s)
next
  case False
  then have "map_of d k = None"
    by (simp add: map_of_eq_None_iff)
  with False show ?thesis
    by (simp add: total_points_def update_team_def lookup_team_def default_stats_def)
qed

lemma lookup_team_member:
  "distinct (map fst d) \<Longrightarrow> (k, s) \<in> set d \<Longrightarrow> lookup_team d k = s"
  by (simp add: lookup_team_def)

subsection \<open>One match\<close>

lemma distinct_match_step:
  "distinct (map fst d) \<Longrightarrow> distinct (map fst (match_step row d))"
  by (simp add: match_step_def Let_def distinct_update_team)

lemma total_points_match_step:
  assumes "distinct (map fst d)"
  shows "total_points (match_step row d) =
           total_points d + (if home_goals row = away_goals row then 2 else 3)"
  using assms
  by (simp add: match_step_def Let_def total_points_update_team distinct_update_team
      lookup_update_team)

lemma balanced_match_step:
  "balanced (lookup_team d k) \<Longrightarrow> balanced (lookup_team (match_step row d) k)"
  by (auto simp: match_step_def Let_def lookup_update_team balanced_def)

lemma played_match_step:
  "played (lookup_team (match_step row d) k) =
     played (lookup_team d k) + (if Team_1 row = k then 1 else 0)
       + (if Team_2 row = k then 1 else 0)"
  by (simp add: match_step_def Let_def lookup_update_team played_def)

subsection \<open>The whole table\<close>

lemma distinct_accumulate:
  "distinct (map fst d) \<Longrightarrow> distinct (map fst (accumulate rows d))"
  by (induction rows arbitrary: d) (simp_all add: distinct_match_step)

lemma total_points_accumulate:
  "distinct (map fst d) \<Longrightarrow>
   total_points (accumulate rows d) =
     total_points d
     + 3 * int (length (filter (\<lambda>m. home_goals m \<noteq> away_goals m) rows))
     + 2 * int (length (filter (\<lambda>m. home_goals m = away_goals m) rows))"
proof (induction rows arbitrary: d)
  case Nil
  then show ?case by simp
next
  case (Cons row rows)
  from Cons.prems have "distinct (map fst (match_step row d))"
    by (rule distinct_match_step)
  from Cons.IH[OF this] Cons.prems show ?case
    by (simp add: total_points_match_step)
qed

lemma balanced_accumulate:
  "balanced (lookup_team d k) \<Longrightarrow> balanced (lookup_team (accumulate rows d) k)"
  by (induction rows arbitrary: d) (simp_all add: balanced_match_step)

lemma played_accumulate:
  "played (lookup_team (accumulate rows d) k) =
     played (lookup_team d k)
     + int (length (filter (\<lambda>m. Team_1 m = k) rows))
     + int (length (filter (\<lambda>m. Team_2 m = k) rows))"
  by (induction rows arbitrary: d) (simp_all add: played_match_step)

section \<open>The summary of a season\<close>

lemma with_position_points: "points (with_position p) = points (snd p)"
  by (cases p) (simp add: with_position_def)


lemma map_snd_enumerate_fun: "map (\<lambda>p. f (snd p)) (enumerate n xs) = map f xs"
  by (induction xs arbitrary: n) simp_all

lemma sum_list_sort_key:
  "sum_list (map f (sort_key g xs)) = sum_list (map (f::'a \<Rightarrow> int) xs)"
proof -
  have "sum_list (map f (sort_key g xs)) = sum_mset (image_mset f (mset (sort_key g xs)))"
    by (metis mset_map sum_mset_sum_list)
  also have "\<dots> = sum_mset (image_mset f (mset xs))" by simp
  also have "\<dots> = sum_list (map f xs)"
    by (metis mset_map sum_mset_sum_list)
  finally show ?thesis .
qed

lemma summarise_season_rows:
  assumes "summarise_season ms = Inr out"
  shows "out = map with_position (enumerate 0 (sort_desc (map build_row (accumulate ms []))))"
  using assms by (simp add: summarise_season_def Let_def split: if_splits)

lemma summarise_season_index:
  assumes "summarise_season ms = Inr out" and "r \<in> set out"
  shows "\<exists>i < length (sort_desc (map build_row (accumulate ms []))).
           r = with_position (i, sort_desc (map build_row (accumulate ms [])) ! i)"
proof -
  from assms(2) obtain n where "n < length out" and "r = out ! n"
    by (auto simp: in_set_conv_nth)
  then show ?thesis
    unfolding summarise_season_rows[OF assms(1)]
    by (auto simp: nth_enumerate_eq)
qed

lemma summarise_season_member:
  assumes "summarise_season ms = Inr out" and "r \<in> set out"
  shows "\<exists>s. (team r, s) \<in> set (accumulate ms []) \<and> points r = points s \<and> wins r = wins s
             \<and> draws r = draws s \<and> losses r = losses s"
proof -
  let ?srt = "sort_desc (map build_row (accumulate ms []))"
  from summarise_season_index[OF assms] obtain i where
    "i < length ?srt" and r: "r = with_position (i, ?srt ! i)" by blast
  then have "?srt ! i \<in> set ?srt" by simp
  then obtain k s where "(k, s) \<in> set (accumulate ms [])" and "?srt ! i = build_row (k, s)"
    by (auto simp: sort_desc_def)
  with r show ?thesis
    by (auto simp: with_position_def build_row_def)
qed

lemma summarise_season_points:
  assumes "summarise_season ms = Inr out"
  shows "sum_list (map points out) = total_points (accumulate ms [])"
proof -
  have "map points out = map points (sort_desc (map build_row (accumulate ms [])))"
    unfolding summarise_season_rows[OF assms]
    by (simp add: comp_def with_position_points map_snd_enumerate_fun)
  then show ?thesis
    by (simp add: sort_desc_def sum_list_sort_key total_points_def comp_def build_row_def
        split_def)
qed

lemma sort_desc_order:
  assumes "i < length (sort_desc rows)" and "j < length (sort_desc rows)"
    and "(- points (sort_desc rows ! i), - goal_diff (sort_desc rows ! i),
          - goals_for (sort_desc rows ! i))
         < (- points (sort_desc rows ! j), - goal_diff (sort_desc rows ! j),
            - goals_for (sort_desc rows ! j))"
  shows "i < j"
proof (rule ccontr)
  let ?key = "\<lambda>r::team_row. (- points r, - goal_diff r, - goals_for r)"
  assume "\<not> i < j"
  then have "j \<le> i" by simp
  have "sorted (map ?key (sort_desc rows))"
    unfolding sort_desc_def by (rule sorted_sort_key)
  from sorted_nth_mono[OF this \<open>j \<le> i\<close>] assms(1)
  have le: "?key (sort_desc rows ! j) \<le> ?key (sort_desc rows ! i)"
    using assms(2) by simp
  show False
    by (rule notE[OF leD[OF le] assms(3)])
qed

lemma toy_summary: "summarise_season toy_season = Inr toy_table"
  by code_simp

lemma update_team_nonempty: "update_team k f d \<noteq> []"
  by (auto simp: update_team_def)

lemma match_step_nonempty: "match_step row d \<noteq> []"
  by (simp add: match_step_def Let_def update_team_nonempty)

lemma accumulate_nonempty: "d \<noteq> [] \<Longrightarrow> accumulate rows d \<noteq> []"
  by (induction rows arbitrary: d) (simp_all add: match_step_nonempty)

lemma summarise_season_succeeds:
  assumes "ms \<noteq> []"
  shows "\<exists>out. summarise_season ms = Inr out"
proof -
  from assms obtain row rows where "ms = row # rows" by (cases ms) auto
  then have "accumulate ms [] \<noteq> []"
    by (simp add: accumulate_nonempty match_step_nonempty)
  then show ?thesis by (simp add: summarise_season_def Let_def)
qed

text \<open>
  Claim C6. Every match table that has a row, and so every table that the parser
  returns, is summarised, and summed over the rows of the summary, the points are three
  for each match with unequal goal counts and two for each match with equal goal
  counts.
\<close>

theorem summarise_season_total_points:
  assumes "ms \<noteq> [] \<or> (\<exists>df. parse_match_results df = Inr ms)"
  shows "\<exists>out. summarise_season ms = Inr out
           \<and> sum_list (map points out) =
               3 * int (length (filter (\<lambda>m. home_goals m \<noteq> away_goals m) ms))
               + 2 * int (length (filter (\<lambda>m. home_goals m = away_goals m) ms))"
proof -
  from assms have "ms \<noteq> []"
    using parse_match_results_nonempty by blast
  from summarise_season_succeeds[OF this] obtain out where out: "summarise_season ms = Inr out"
    by blast
  from summarise_season_points[OF out] total_points_accumulate[of "[]" ms]
  have "sum_list (map points out) =
          3 * int (length (filter (\<lambda>m. home_goals m \<noteq> away_goals m) ms))
          + 2 * int (length (filter (\<lambda>m. home_goals m = away_goals m) ms))"
    by (simp add: total_points_def)
  with out show ?thesis by blast
qed

theorem summarise_season_total_points_witness:
  "toy_season \<noteq> [] \<and> summarise_season toy_season = Inr toy_table
   \<and> sum_list (map points toy_table) = 3 * 2 + 2 * 1"
proof -
  have ne: "toy_season \<noteq> []" by (simp add: toy_season_def)
  then have "toy_season \<noteq> [] \<or> (\<exists>df. parse_match_results df = Inr toy_season)" ..
  from summarise_season_total_points[OF this] obtain out where "summarise_season toy_season = Inr out"
    and "sum_list (map points out) =
          3 * int (length (filter (\<lambda>m. home_goals m \<noteq> away_goals m) toy_season))
          + 2 * int (length (filter (\<lambda>m. home_goals m = away_goals m) toy_season))"
    by blast
  with toy_summary have "sum_list (map points toy_table) =
          3 * int (length (filter (\<lambda>m. home_goals m \<noteq> away_goals m) toy_season))
          + 2 * int (length (filter (\<lambda>m. home_goals m = away_goals m) toy_season))"
    by simp
  then have "sum_list (map points toy_table) = 3 * 2 + 2 * 1"
    by (simp add: toy_season_def played_match_def)
  with ne toy_summary show ?thesis by simp
qed

text \<open>
  Claim C7. Of two rows of a summary with the same points, the one with the strictly
  higher goal difference has the strictly smaller position; with the same points and
  the same goal difference, the one with strictly more goals scored has the strictly
  smaller position.
\<close>

theorem summarise_season_tie_break:
  assumes "summarise_season ms = Inr out" and "a \<in> set out" and "b \<in> set out"
    and "points a = points b"
  shows "(goal_diff a > goal_diff b \<longrightarrow> position a < position b) \<and>
         (goal_diff a = goal_diff b \<and> goals_for a > goals_for b \<longrightarrow> position a < position b)"
proof -
  let ?srt = "sort_desc (map build_row (accumulate ms []))"
  from summarise_season_index[OF assms(1,2)] obtain i where
    i: "i < length ?srt" "a = with_position (i, ?srt ! i)" by blast
  from summarise_season_index[OF assms(1,3)] obtain j where
    j: "j < length ?srt" "b = with_position (j, ?srt ! j)" by blast
  have fa: "points a = points (?srt ! i)" "goal_diff a = goal_diff (?srt ! i)"
    "goals_for a = goals_for (?srt ! i)" "position a = int i + 1"
    by (simp_all add: i(2) with_position_def)
  have fb: "points b = points (?srt ! j)" "goal_diff b = goal_diff (?srt ! j)"
    "goals_for b = goals_for (?srt ! j)" "position b = int j + 1"
    by (simp_all add: j(2) with_position_def)
  have "i < j"
    if "goal_diff a > goal_diff b \<or> goal_diff a = goal_diff b \<and> goals_for a > goals_for b"
  proof (rule sort_desc_order[OF i(1) j(1)])
    from that assms(4) fa fb
    show "(- points (?srt ! i), - goal_diff (?srt ! i), - goals_for (?srt ! i))
            < (- points (?srt ! j), - goal_diff (?srt ! j), - goals_for (?srt ! j))"
      by auto
  qed
  then show ?thesis
    by (auto simp: fa(4) fb(4))
qed

theorem summarise_season_tie_break_witness:
  "summarise_season toy_season = Inr toy_table
   \<and> toy_table ! 0 \<in> set toy_table \<and> toy_table ! 1 \<in> set toy_table
   \<and> points (toy_table ! 0) = points (toy_table ! 1)
   \<and> goal_diff (toy_table ! 0) > goal_diff (toy_table ! 1)
   \<and> position (toy_table ! 0) < position (toy_table ! 1)"
  using toy_summary summarise_season_tie_break[OF toy_summary, of "toy_table ! 0" "toy_table ! 1"]
  by (simp add: toy_table_def)

text \<open>
  Claim C10, as stated: the wins, draws and losses of a row add up to the number of
  matches in which its team is the home or the away side. A row of the table that names
  one team on both sides is one match and counts twice: a win and a loss.
\<close>

theorem summarise_season_self_match_counterexample:
  "summarise_season self_match = Inr [self_row]
   \<and> wins self_row + draws self_row + losses self_row
       \<noteq> int (length (filter (\<lambda>m. Team_1 m = team self_row \<or> Team_2 m = team self_row)
                         self_match))"
  by code_simp

text \<open>
  Claim C10, amended. In every row of a summary the points are three times the wins plus
  the draws, and the wins, draws and losses add up to the number of rows of the match
  table with the team as home side plus the number of rows with the team as away side.
\<close>

theorem summarise_season_row_invariant:
  assumes "summarise_season ms = Inr out" and "r \<in> set out"
  shows "points r = 3 * wins r + draws r \<and>
         wins r + draws r + losses r =
           int (length (filter (\<lambda>m. Team_1 m = team r) ms))
           + int (length (filter (\<lambda>m. Team_2 m = team r) ms))"
proof -
  from summarise_season_member[OF assms] obtain s where
    mem: "(team r, s) \<in> set (accumulate ms [])" and
    eq: "points r = points s" "wins r = wins s" "draws r = draws s" "losses r = losses s"
    by blast
  have "distinct (map fst (accumulate ms []))"
    by (rule distinct_accumulate) simp
  then have s: "lookup_team (accumulate ms []) (team r) = s"
    using mem by (rule lookup_team_member)
  have "balanced (lookup_team [] (team r))" "played (lookup_team [] (team r)) = 0"
    by (simp_all add: balanced_def played_def lookup_team_def default_stats_def)
  with balanced_accumulate[of "[]" "team r" ms] played_accumulate[of ms "[]" "team r"] s eq
  show ?thesis
    by (simp add: balanced_def played_def)
qed

theorem summarise_season_row_invariant_witness:
  "summarise_season toy_season = Inr toy_table \<and> toy_table ! 3 \<in> set toy_table
   \<and> points (toy_table ! 3) = 3 * wins (toy_table ! 3) + draws (toy_table ! 3)
   \<and> wins (toy_table ! 3) + draws (toy_table ! 3) + losses (toy_table ! 3) = 1 + 1"
  using toy_summary summarise_season_row_invariant[OF toy_summary, of "toy_table ! 3"]
  by (simp add: toy_table_def toy_season_def played_match_def)

section \<open>The training examples\<close>


lemma summarise_season_nonempty:
  "summarise_season ms = Inr out \<Longrightarrow> out \<noteq> []"
proof
  assume a: "summarise_season ms = Inr out" and "out = []"
  with summarise_season_rows[OF a]
  have "length (map with_position (enumerate 0 (sort_desc (map build_row (accumulate ms []))))) = 0"
    by simp
  then have "length (sort_desc (map build_row (accumulate ms []))) = 0"
    by (simp only: length_map length_enumerate)
  then have "map build_row (accumulate ms []) = []"
    by (simp add: sort_desc_def)
  with a show False
    by (simp add: summarise_season_def)
qed








lemma load_summaries_fails:
  "p \<in> set files \<Longrightarrow> season_summary read_csv p = Inl e \<Longrightarrow>
   \<exists>e'. load_summaries read_csv files m0 = Inl e'"
  by (induction files arbitrary: m0) (auto split: sum.splits)






lemma s1_summary: "season_summary toy_csv ''s1'' = Inr s1_table"
  by code_simp



















text \<open>
  Claim C5, as stated: the function fails when fewer than two season files are
  supplied. Supplied the one file \<open>s1\<close>, it returns no training rows and the inference
  table of that season.
\<close>

theorem prepare_training_data_single_season_counterexample:
  "length [''s1''] < (2::nat)
   \<and> prepare_training_data toy_csv [''s1''] = Inr ([], [], s1_latest)"
  by code_simp

text \<open>
  Claim C5, amended. The function fails with an IndexError when no season file is
  supplied, and it fails whenever a supplied file has no match row (such a season is
  never summarised to an empty standing: parsing it raises). Supplied one file whose
  season can be summarised, it does not fail: it returns no training rows and the
  inference table of that season.
\<close>

theorem prepare_training_data_failures:
  "prepare_training_data read_csv [] = Inl IndexError
   \<and> (p \<in> set files \<and> read_csv p = Inr [] \<longrightarrow>
        (\<exists>e. prepare_training_data read_csv files = Inl e))
   \<and> (season_summary read_csv q = Inr s \<longrightarrow>
        prepare_training_data read_csv [q] = Inr ([], [], latest_features s))"
proof (intro conjI impI)
  show "prepare_training_data read_csv [] = Inl IndexError"
    by (simp add: prepare_training_data_def)
next
  assume a: "p \<in> set files \<and> read_csv p = Inr []"
  then have "season_summary read_csv p = Inl KeyError"
    by (simp add: season_summary_def parse_match_results_empty)
  with a obtain e where "load_summaries read_csv files Map.empty = Inl e"
    using load_summaries_fails by blast
  then show "\<exists>e. prepare_training_data read_csv files = Inl e"
    by (simp add: prepare_training_data_def)
next
  assume "season_summary read_csv q = Inr s"
  then show "prepare_training_data read_csv [q] = Inr ([], [], latest_features s)"
    by (simp add: prepare_training_data_def)
qed

theorem prepare_training_data_failures_witness:
  "prepare_training_data toy_csv [] = Inl IndexError
   \<and> ''s3'' \<in> set [''s1'', ''s3''] \<and> toy_csv ''s3'' = Inr []
   \<and> prepare_training_data toy_csv [''s1'', ''s3''] = Inl KeyError
   \<and> season_summary toy_csv ''s1'' = Inr s1_table
   \<and> prepare_training_data toy_csv [''s1''] = Inr ([], [], latest_features s1_table)"
proof -
  note c = prepare_training_data_failures[of toy_csv "''s3''" "[''s1'', ''s3'']" "''s1''" s1_table]
  have h: "''s3'' \<in> set [''s1'', ''s3'']" "toy_csv ''s3'' = Inr []"
    by (simp_all add: toy_csv_def)
  with c obtain e where e: "prepare_training_data toy_csv [''s1'', ''s3''] = Inl e" by blast
  have "prepare_training_data toy_csv [''s1'', ''s3''] = Inl KeyError" by code_simp
  moreover from c s1_summary
  have "prepare_training_data toy_csv [''s1''] = Inr ([], [], latest_features s1_table)" by blast
  ultimately show ?thesis
    using c h s1_summary by simp
qed

section \<open>The expected positions\<close>

subsection \<open>Rounding\<close>

lemma round64_rnd: "round64 x = (if \<bar>rnd x\<bar> < 2 ^ 1024 then Some (rnd x) else None)"
  by (simp add: round64_def rnd_def Let_def)

lemma rne_error: "\<bar>of_int (rne m) - m\<bar> \<le> 1 / 2"
proof -
  have "of_int \<lfloor>m\<rfloor> \<le> m" "m < of_int \<lfloor>m\<rfloor> + 1" by linarith+
  then show ?thesis
    by (auto simp: rne_def Let_def abs_le_iff)
qed

lemma rne_of_int: "rne (of_int k) = k"
  by (simp add: rne_def Let_def)

lemma bitlen_eqI:
  assumes "2 ^ k \<le> n" and "n < 2 ^ Suc k"
  shows "bitlen n = int k + 1"
proof -
  from assms(1) have pos: "0 < n"
    by (smt (verit) zero_less_power)
  from bitlen_bounds[OF pos] have lo: "2 ^ nat (bitlen n - 1) \<le> n" and hi: "n < 2 ^ nat (bitlen n)"
    by simp_all
  from assms(1) hi have "(2::int) ^ k < 2 ^ nat (bitlen n)" by linarith
  then have a: "k < nat (bitlen n)" by simp
  from lo assms(2) have "(2::int) ^ nat (bitlen n - 1) < 2 ^ Suc k" by linarith
  then have b: "nat (bitlen n - 1) < Suc k" by (simp only: power_strict_increasing_iff one_less_numeral_iff semiring_norm)
  from a b show ?thesis by linarith
qed

lemma expo_ge: "- 1022 \<le> expo x"
  by (simp add: expo_def)

lemma expo_lower:
  assumes "- 1022 < expo x"
  shows "2 powi (expo x) \<le> \<bar>x\<bar>"
proof -
  let ?n = "\<lfloor>\<bar>x\<bar> * 2 ^ 1074\<rfloor>"
  from assms have e: "expo x = bitlen ?n - 1075" and big: "53 < bitlen ?n"
    by (auto simp: expo_def max_def split: if_splits)
  then have pos: "0 < ?n"
    using bitlen_eq_zero_iff[of ?n] by (cases "0 < ?n") auto
  from bitlen_bounds[OF pos] have "2 ^ nat (bitlen ?n - 1) \<le> ?n" by simp
  then have "(2::rat) ^ nat (bitlen ?n - 1) \<le> of_int ?n"
    by (metis of_int_le_iff of_int_numeral of_int_power)
  also have "\<dots> \<le> \<bar>x\<bar> * 2 ^ 1074" by linarith
  finally have "(2::rat) ^ nat (bitlen ?n - 1) / 2 ^ 1074 \<le> \<bar>x\<bar>"
    by (simp add: pos_divide_le_eq)
  moreover have "(2::rat) powi (bitlen ?n - 1075) = 2 ^ nat (bitlen ?n - 1) / 2 ^ 1074"
  proof -
    have "bitlen ?n - 1075 = int (nat (bitlen ?n - 1)) - int 1074" using big by simp
    then show ?thesis
      by (simp only: power_int_diff[of "2::rat", simplified] power_int_of_nat) 
  qed
  ultimately show ?thesis by (simp add: e)
qed

lemma powi_pos: "0 < (2::rat) powi e"
  by (simp add: power_int_def)

lemma rnd_error_q: "\<bar>rnd x - x\<bar> \<le> 2 powi (expo x - 52) / 2"
proof -
  let ?q = "(2::rat) powi (expo x - 52)"
  have q: "0 < ?q" by (rule powi_pos)
  have "rnd x - x = (of_int (rne (x / ?q)) - x / ?q) * ?q"
    using q by (simp add: rnd_def field_simps)
  then have "\<bar>rnd x - x\<bar> = \<bar>of_int (rne (x / ?q)) - x / ?q\<bar> * ?q"
    using q by (simp add: abs_mult)
  also have "\<dots> \<le> (1 / 2) * ?q"
    using q rne_error[of "x / ?q"] by (intro mult_right_mono) simp_all
  finally show ?thesis by simp
qed

lemma rnd_exact_subnormal:
  assumes "on_grid x" and "expo x = - 1022"
  shows "rnd x = x"
proof -
  from assms(1) obtain k :: int where k: "x * 2 ^ 1074 = of_int k"
    by (auto simp: on_grid_def)
  have q: "(2::rat) powi (expo x - 52) = 1 / 2 ^ 1074"
    unfolding assms(2) by (simp add: power_int_def field_simps)
  have "x / (1 / 2 ^ 1074) = of_int k" using k by simp
  then show ?thesis
    unfolding rnd_def q using k by (simp add: rne_of_int)
qed

lemma half_ulp: "a = b / 2 ^ 52 \<Longrightarrow> a / 2 = b * (1 / 2 ^ 53 :: rat)"
  by simp

lemma rnd_error:
  assumes "on_grid x"
  shows "\<bar>rnd x - x\<bar> \<le> ulp53 * \<bar>x\<bar>"
proof (cases "expo x = - 1022")
  case True
  with assms show ?thesis by (simp add: rnd_exact_subnormal ulp53_def)
next
  case False
  with expo_ge[of x] have "- 1022 < expo x" by simp
  from expo_lower[OF this] have lo: "2 powi (expo x) \<le> \<bar>x\<bar>" .
  have "(2::rat) powi (expo x - 52) = 2 powi (expo x) / 2 powi 52"
    by (rule power_int_diff) simp
  also have "(2::rat) powi 52 = 2 ^ 52"
    using power_int_of_nat[of "2::rat" 52] by simp
  finally have "(2::rat) powi (expo x - 52) = 2 powi (expo x) / 2 ^ 52" .
  then have "(2::rat) powi (expo x - 52) / 2 = 2 powi (expo x) * ulp53"
    unfolding ulp53_def by (rule half_ulp)
  with rnd_error_q[of x] have "\<bar>rnd x - x\<bar> \<le> 2 powi (expo x) * ulp53" by simp
  also have "\<dots> \<le> \<bar>x\<bar> * ulp53"
    using lo by (intro mult_right_mono) (simp_all add: ulp53_def)
  finally show ?thesis by (simp add: mult.commute)
qed

lemma on_grid_rnd: "on_grid (rnd x)"
proof -
  have "0 \<le> expo x - 52 + 1074" using expo_ge[of x] by simp
  then obtain n :: nat where n: "expo x - 52 + 1074 = int n"
    using nonneg_int_cases by blast
  have p: "(2::rat) powi (int 1074) = 2 ^ 1074"
    by (rule power_int_of_nat)
  have "(2::rat) powi (expo x - 52 + int 1074) = 2 powi (expo x - 52) * 2 powi (int 1074)"
    by (rule power_int_add) simp
  moreover have "(2::rat) powi (expo x - 52 + int 1074) = 2 ^ n"
    using n by (simp add: power_int_of_nat)
  ultimately have "(2::rat) powi (expo x - 52) * 2 ^ 1074 = 2 ^ n"
    unfolding p by simp
  then have "rnd x * 2 ^ 1074 = of_int (rne (x / 2 powi (expo x - 52))) * 2 ^ n"
    unfolding rnd_def by (simp only: mult.assoc)
  also have "\<dots> = of_int (rne (x / 2 powi (expo x - 52)) * 2 ^ n)" by simp
  finally show ?thesis unfolding on_grid_def by blast
qed

lemma on_grid_add: "on_grid a \<Longrightarrow> on_grid b \<Longrightarrow> on_grid (a + b)"
proof -
  assume "on_grid a" "on_grid b"
  then obtain k l :: int where "a * 2 ^ 1074 = of_int k" "b * 2 ^ 1074 = of_int l"
    by (auto simp: on_grid_def)
  then have "(a + b) * 2 ^ 1074 = of_int (k + l)" by (simp add: distrib_right)
  then show ?thesis unfolding on_grid_def by blast
qed

lemma on_grid_mult_int: "on_grid a \<Longrightarrow> on_grid (a * of_int m)"
proof -
  assume "on_grid a"
  then obtain k :: int where "a * 2 ^ 1074 = of_int k"
    by (auto simp: on_grid_def)
  then have "(a * of_int m) * 2 ^ 1074 = of_int (k * m)" by (simp add: mult.commute mult.left_commute)
  then show ?thesis unfolding on_grid_def by blast
qed

lemma on_grid_of_int: "on_grid (of_int c)"
proof -
  have "(of_int c :: rat) * 2 ^ 1074 = of_int (c * 2 ^ 1074)" by simp
  then show ?thesis unfolding on_grid_def by blast
qed

lemma on_grid_0: "on_grid 0"
  using on_grid_of_int[of 0] by simp

lemma rnd_of_int_integral: "\<exists>m::int. rnd (of_int c) = of_int m"
proof (cases "52 \<le> expo (of_int c)")
  case True
  then obtain n :: nat where n: "expo (of_int c) - 52 = int n"
    using nonneg_int_cases[of "expo (of_int c) - 52"] by auto
  have "(2::rat) powi (expo (of_int c) - 52) = 2 ^ n"
    unfolding n by (simp add: power_int_of_nat)
  then have "rnd (of_int c) = of_int (rne (of_int c / 2 ^ n) * 2 ^ n)"
    by (simp add: rnd_def)
  then show ?thesis by blast
next
  case False
  then obtain n :: nat where n: "52 - expo (of_int c) = int n"
    using nonneg_int_cases[of "52 - expo (of_int c)"] by auto
  then have e: "expo (of_int c) - 52 = - int n" by simp
  have q: "(2::rat) powi (expo (of_int c) - 52) = 1 / 2 ^ n"
    unfolding e by (simp add: power_int_minus power_int_of_nat field_simps)
  have "(of_int c :: rat) / (1 / 2 ^ n) = of_int (c * 2 ^ n)" by simp
  then have "rnd (of_int c) = of_int (c * 2 ^ n) * (1 / 2 ^ n)"
    unfolding rnd_def q by (simp only: rne_of_int)
  then have "rnd (of_int c) = of_int c" by simp
  then show ?thesis by blast
qed

lemma small_lt_huge: "(2::rat) ^ 65 < 2 ^ 1024"
  by (rule power_strict_increasing) simp_all

lemma round64_Some:
  assumes "on_grid x" and "\<bar>x\<bar> \<le> 2 ^ 64"
  shows "round64 x = Some (rnd x)"
proof -
  have "\<bar>rnd x\<bar> \<le> \<bar>x\<bar> + \<bar>rnd x - x\<bar>" by simp
  also have "\<dots> \<le> \<bar>x\<bar> + ulp53 * \<bar>x\<bar>" using rnd_error[OF assms(1)] by simp
  also have "\<dots> \<le> 2 * \<bar>x\<bar>" by (simp add: ulp53_def)
  also have "\<dots> \<le> 2 * 2 ^ 64" using assms(2) by simp
  also have "\<dots> = (2::rat) ^ 65" by simp
  also note small_lt_huge
  finally show ?thesis by (simp only: round64_rnd if_True)
qed

subsection \<open>Evaluating a rounding\<close>

lemma powi_shift:
  assumes "- 1074 \<le> e"
  shows "(2::rat) powi e * 2 ^ 1074 = 2 ^ nat (e + 1074)"
proof -
  have p: "(2::rat) powi (int 1074) = 2 ^ 1074" by (rule power_int_of_nat)
  have "(2::rat) powi (e + int 1074) = 2 powi e * 2 powi (int 1074)"
    by (rule power_int_add) simp
  moreover have "(2::rat) powi (e + int 1074) = 2 ^ nat (e + 1074)"
    using assms by (simp add: power_int_def)
  ultimately show ?thesis unfolding p by simp
qed

lemma expo_eq:
  assumes lo: "2 powi e \<le> \<bar>x\<bar>" and hi: "\<bar>x\<bar> < 2 powi (e + 1)" and e: "- 1022 \<le> e"
  shows "expo x = e"
proof -
  let ?k = "nat (e + 1074)"
  let ?n = "\<lfloor>\<bar>x\<bar> * 2 ^ 1074\<rfloor>"
  have "(2::rat) ^ ?k = 2 powi e * 2 ^ 1074" using powi_shift[of e] e by simp
  also have "\<dots> \<le> \<bar>x\<bar> * 2 ^ 1074" using lo by (intro mult_right_mono) simp_all
  finally have "rat_of_int (2 ^ ?k) \<le> \<bar>x\<bar> * 2 ^ 1074" by simp
  then have a: "2 ^ ?k \<le> ?n" by (simp only: le_floor_iff)
  have "\<bar>x\<bar> * 2 ^ 1074 < 2 powi (e + 1) * 2 ^ 1074" using hi by (intro mult_strict_right_mono) simp_all
  also have "\<dots> = 2 ^ nat (e + 1 + 1074)" using powi_shift[of "e + 1"] e by simp
  also have "nat (e + 1 + 1074) = Suc ?k" using e by simp
  finally have "\<bar>x\<bar> * 2 ^ 1074 < rat_of_int (2 ^ Suc ?k)" by simp
  then have b: "?n < 2 ^ Suc ?k" by (simp only: floor_less_iff)
  from bitlen_eqI[OF a b] have "bitlen ?n = e + 1075" using e by simp
  then show ?thesis using e by (simp add: expo_def)
qed

lemma round64_eval:
  assumes lo: "2 powi e \<le> \<bar>x\<bar>" and hi: "\<bar>x\<bar> < 2 powi (e + 1)" and e: "- 1022 \<le> e" "e \<le> 1022"
  shows "round64 x = Some (of_int (rne (x / 2 powi (e - 52))) * 2 powi (e - 52))"
proof -
  have ex: "expo x = e" by (rule expo_eq[OF lo hi e(1)])
  have "(2::rat) powi (e - 52) \<le> 2 powi (e + 1)"
    by (intro power_int_increasing) simp_all
  with rnd_error_q[of x] powi_pos[of "e - 52"] have "\<bar>rnd x - x\<bar> \<le> 2 powi (e + 1)"
    unfolding ex by linarith
  moreover have "\<bar>rnd x\<bar> \<le> \<bar>x\<bar> + \<bar>rnd x - x\<bar>" by simp
  ultimately have "\<bar>rnd x\<bar> < 2 powi (e + 1) + 2 powi (e + 1)" using hi by linarith
  also have "\<dots> = 2 powi (e + 1) * 2 powi 1" by simp
  also have "\<dots> = 2 powi (e + 1 + 1)" by (rule power_int_add[symmetric]) simp
  also have "\<dots> \<le> 2 powi (int 1024)" using e by (intro power_int_increasing) simp_all
  also have "\<dots> = 2 ^ 1024" by (rule power_int_of_nat)
  finally have "\<bar>rnd x\<bar> < 2 ^ 1024" .
  then have "round64 x = Some (rnd x)" by (simp only: round64_rnd if_True)
  then show ?thesis unfolding rnd_def ex .
qed

lemma round64_value:
  assumes "2 powi e \<le> \<bar>x\<bar>" and "\<bar>x\<bar> < 2 powi (e + 1)" and "- 1022 \<le> e" and "e \<le> 1022"
    and "rne (x / 2 powi (e - 52)) = k" and "r = of_int k * 2 powi (e - 52)"
  shows "round64 x = Some r"
  using round64_eval[OF assms(1-4)] assms(5,6) by simp

lemma round64_0: "round64 0 = Some 0"
  using round64_Some[OF on_grid_0] by (simp add: rnd_def rne_def)

subsection \<open>The error of the dot product\<close>

lemma ulp53_pos: "0 < ulp53" "ulp53 \<le> 1"
  by (simp_all add: ulp53_def)

lemma dot_step_bound:
  fixes a A T W p :: rat and c :: int
  assumes ga: "on_grid a" and gp: "on_grid p" and p0: "0 \<le> p" and p1: "p \<le> 1"
    and c: "\<bar>c\<bar> \<le> 2 ^ 63"
    and err: "\<bar>a - A\<bar> \<le> (W - 1) * T" and AT: "\<bar>A\<bar> \<le> T"
    and W: "(1 + ulp53)\<^sup>2 \<le> W"
    and big: "W * (T + p * \<bar>of_int c\<bar>) \<le> 2 ^ 64"
  shows "\<exists>r. dot_step (Some a) (p, c) = Some r \<and> on_grid r
           \<and> \<bar>r - (A + p * of_int c)\<bar> \<le> (W * (1 + ulp53) - 1) * (T + p * \<bar>of_int c\<bar>)
           \<and> \<bar>A + p * of_int c\<bar> \<le> T + p * \<bar>of_int c\<bar>"
proof -
  let ?u = ulp53
  let ?c = "of_int c :: rat"
  let ?T' = "T + p * \<bar>?c\<bar>"
  note u = ulp53_pos
  have T0: "0 \<le> T" using AT by linarith
  have W1: "1 \<le> W"
  proof -
    have "1 \<le> (1 + ?u)\<^sup>2" using u by (simp add: power2_eq_square algebra_simps)
    with W show ?thesis by linarith
  qed
  have T'0: "0 \<le> ?T'" using T0 p0 by simp
  \<comment> \<open>the class label as a double\<close>
  have cb: "\<bar>?c\<bar> \<le> 2 ^ 63"
  proof -
    from c have "(of_int \<bar>c\<bar> :: rat) \<le> of_int (2 ^ 63)" by (simp only: of_int_le_iff)
    then show ?thesis by simp
  qed
  then have "\<bar>?c\<bar> \<le> 2 ^ 64" by simp
  from round64_Some[OF on_grid_of_int this] have r1: "round64 ?c = Some (rnd ?c)" .
  obtain m :: int where m: "rnd ?c = of_int m" using rnd_of_int_integral by blast
  have e1: "\<bar>rnd ?c - ?c\<bar> \<le> ?u * \<bar>?c\<bar>" by (rule rnd_error[OF on_grid_of_int])
  have c'': "\<bar>rnd ?c\<bar> \<le> (1 + ?u) * \<bar>?c\<bar>"
  proof -
    have "\<bar>rnd ?c\<bar> \<le> \<bar>?c\<bar> + \<bar>rnd ?c - ?c\<bar>" by simp
    with e1 show ?thesis by (simp add: algebra_simps)
  qed
  \<comment> \<open>the product\<close>
  let ?x = "p * rnd ?c"
  have gx: "on_grid ?x" unfolding m by (rule on_grid_mult_int[OF gp])
  have xb: "\<bar>?x\<bar> \<le> (1 + ?u) * (p * \<bar>?c\<bar>)"
  proof -
    have "\<bar>?x\<bar> = p * \<bar>rnd ?c\<bar>" using p0 by (simp add: abs_mult)
    also have "\<dots> \<le> p * ((1 + ?u) * \<bar>?c\<bar>)" using c'' p0 by (rule mult_left_mono)
    finally show ?thesis by (simp add: algebra_simps)
  qed
  have "(1 + ?u) * (p * \<bar>?c\<bar>) \<le> 2 * (1 * 2 ^ 63)"
    using u p0 p1 cb by (intro mult_mono) simp_all
  with xb have "\<bar>?x\<bar> \<le> 2 ^ 64" by simp
  from round64_Some[OF gx this] have r2: "round64 ?x = Some (rnd ?x)" .
  let ?t = "rnd ?x"
  have e2: "\<bar>?t - ?x\<bar> \<le> ?u * \<bar>?x\<bar>" by (rule rnd_error[OF gx])
  have et: "\<bar>?t - p * ?c\<bar> \<le> ((1 + ?u)\<^sup>2 - 1) * (p * \<bar>?c\<bar>)"
  proof -
    have "\<bar>?t - p * ?c\<bar> \<le> \<bar>?t - ?x\<bar> + \<bar>?x - p * ?c\<bar>" by simp
    moreover have "\<bar>?x - p * ?c\<bar> = p * \<bar>rnd ?c - ?c\<bar>"
      using p0 by (simp add: abs_mult right_diff_distrib[symmetric])
    moreover have "p * \<bar>rnd ?c - ?c\<bar> \<le> p * (?u * \<bar>?c\<bar>)" using e1 p0 by (rule mult_left_mono)
    moreover have "?u * \<bar>?x\<bar> \<le> ?u * ((1 + ?u) * (p * \<bar>?c\<bar>))"
      using xb u by (intro mult_left_mono) simp_all
    ultimately have "\<bar>?t - p * ?c\<bar> \<le> ?u * ((1 + ?u) * (p * \<bar>?c\<bar>)) + p * (?u * \<bar>?c\<bar>)"
      using e2 by linarith
    also have "\<dots> = ((1 + ?u)\<^sup>2 - 1) * (p * \<bar>?c\<bar>)"
      by (simp add: power2_eq_square algebra_simps)
    finally show ?thesis .
  qed
  \<comment> \<open>the sum\<close>
  let ?s = "a + ?t"
  have gs: "on_grid ?s" by (rule on_grid_add[OF ga on_grid_rnd])
  have pc0: "0 \<le> p * \<bar>?c\<bar>" using p0 by simp
  have es: "\<bar>?s - (A + p * ?c)\<bar> \<le> (W - 1) * ?T'"
  proof -
    have "\<bar>?s - (A + p * ?c)\<bar> \<le> \<bar>a - A\<bar> + \<bar>?t - p * ?c\<bar>" by simp
    moreover have "((1 + ?u)\<^sup>2 - 1) * (p * \<bar>?c\<bar>) \<le> (W - 1) * (p * \<bar>?c\<bar>)"
      using W pc0 by (intro mult_right_mono) simp_all
    ultimately have "\<bar>?s - (A + p * ?c)\<bar> \<le> (W - 1) * T + (W - 1) * (p * \<bar>?c\<bar>)"
      using err et by linarith
    then show ?thesis by (simp add: algebra_simps)
  qed
  have ex: "\<bar>A + p * ?c\<bar> \<le> ?T'"
  proof -
    have "\<bar>A + p * ?c\<bar> \<le> \<bar>A\<bar> + \<bar>p * ?c\<bar>" by simp
    also have "\<bar>p * ?c\<bar> = p * \<bar>?c\<bar>" using p0 by (simp add: abs_mult)
    finally show ?thesis using AT by linarith
  qed
  have sb: "\<bar>?s\<bar> \<le> W * ?T'"
  proof -
    have "\<bar>?s\<bar> \<le> \<bar>A + p * ?c\<bar> + \<bar>?s - (A + p * ?c)\<bar>" by simp
    with ex es have "\<bar>?s\<bar> \<le> ?T' + (W - 1) * ?T'" by linarith
    then show ?thesis by (simp add: algebra_simps)
  qed
  from order_trans[OF sb big] have "\<bar>?s\<bar> \<le> 2 ^ 64" .
  from round64_Some[OF gs this] have r3: "round64 ?s = Some (rnd ?s)" .
  have e3: "\<bar>rnd ?s - ?s\<bar> \<le> ?u * \<bar>?s\<bar>" by (rule rnd_error[OF gs])
  have "?u * \<bar>?s\<bar> \<le> ?u * (W * ?T')" using sb u by (intro mult_left_mono) simp_all
  with e3 have "\<bar>rnd ?s - ?s\<bar> \<le> ?u * (W * ?T')" by linarith
  moreover have "\<bar>rnd ?s - (A + p * ?c)\<bar> \<le> \<bar>rnd ?s - ?s\<bar> + \<bar>?s - (A + p * ?c)\<bar>" by simp
  ultimately have "\<bar>rnd ?s - (A + p * ?c)\<bar> \<le> ?u * (W * ?T') + (W - 1) * ?T'"
    using es by linarith
  also have "\<dots> = (W * (1 + ?u) - 1) * ?T'" by (simp add: algebra_simps)
  finally have fin: "\<bar>rnd ?s - (A + p * ?c)\<bar> \<le> (W * (1 + ?u) - 1) * ?T'" .
  have "dot_step (Some a) (p, c) = Some (rnd ?s)"
    by (simp add: dot_step_def fadd_def fmul_def r1 r2 r3)
  with fin ex on_grid_rnd show ?thesis by blast
qed

lemma pow_ulp_bound: "2 * of_nat m * ulp53 \<le> 1 \<Longrightarrow> (1 + ulp53) ^ m \<le> 1 + 2 * of_nat m * ulp53"
proof (induction m)
  case 0
  then show ?case by simp
next
  case (Suc m)
  note u = ulp53_pos
  from Suc.prems u have small: "2 * of_nat m * ulp53 \<le> 1"
    by (simp add: algebra_simps) 
  from Suc.IH[OF small] have ih: "(1 + ulp53) ^ m \<le> 1 + 2 * of_nat m * ulp53" .
  have "(1 + ulp53) ^ Suc m = (1 + ulp53) ^ m * (1 + ulp53)" by simp
  also have "\<dots> \<le> (1 + 2 * of_nat m * ulp53) * (1 + ulp53)"
    using ih u by (intro mult_right_mono) simp_all
  also have "\<dots> = 1 + 2 * of_nat m * ulp53 + ulp53 + (2 * of_nat m * ulp53) * ulp53"
    by (simp add: algebra_simps)
  also have "\<dots> \<le> 1 + 2 * of_nat m * ulp53 + ulp53 + 1 * ulp53"
    using small u by (intro add_left_mono mult_right_mono) simp_all
  also have "\<dots> = 1 + 2 * of_nat (Suc m) * ulp53" by (simp add: algebra_simps)
  finally show ?case .
qed

lemma pow_ulp_le_2:
  assumes "m \<le> 2 ^ 52"
  shows "(1 + ulp53) ^ m \<le> 2"
proof -
  have "(of_nat m :: rat) \<le> of_nat (2 ^ 52)" using assms by (simp only: of_nat_le_iff)
  then have m: "(of_nat m :: rat) \<le> 2 ^ 52" by simp
  then have "2 * of_nat m * ulp53 \<le> 1" by (simp add: ulp53_def)
  from pow_ulp_bound[OF this] this show ?thesis by linarith
qed

lemma pow_ulp_ge_1: "1 \<le> (1 + ulp53) ^ m"
  using ulp53_pos by (intro one_le_power) simp

lemma dot_fold_bound:
  fixes a A T W :: rat and zs :: "(rat \<times> int) list"
  assumes "on_grid a" and "\<bar>a - A\<bar> \<le> (W - 1) * T" and "\<bar>A\<bar> \<le> T"
    and "(1 + ulp53)\<^sup>2 \<le> W"
    and "\<forall>(p, c) \<in> set zs. on_grid p \<and> 0 \<le> p \<and> p \<le> 1 \<and> \<bar>c\<bar> \<le> 2 ^ 63"
    and "W * (1 + ulp53) ^ length zs * (T + (\<Sum>(p, c)\<leftarrow>zs. p * \<bar>of_int c\<bar>)) \<le> 2 ^ 64"
  shows "\<exists>r. foldl dot_step (Some a) zs = Some r \<and> on_grid r
           \<and> \<bar>r - (A + (\<Sum>(p, c)\<leftarrow>zs. p * of_int c))\<bar>
               \<le> (W * (1 + ulp53) ^ length zs - 1) * (T + (\<Sum>(p, c)\<leftarrow>zs. p * \<bar>of_int c\<bar>))"
  using assms
proof (induction zs arbitrary: a A T W)
  case Nil
  then show ?case by simp
next
  case (Cons z zs)
  obtain p c where z: "z = (p, c)" by (cases z)
  let ?U = "1 + ulp53"
  let ?rest = "\<Sum>(p, c)\<leftarrow>zs. p * \<bar>rat_of_int c\<bar>"
  let ?T' = "T + p * \<bar>rat_of_int c\<bar>"
  note u = ulp53_pos
  from Cons.prems(5) z have pc: "on_grid p" "0 \<le> p" "p \<le> 1" "\<bar>c\<bar> \<le> 2 ^ 63"
    and rest: "\<forall>(p, c) \<in> set zs. on_grid p \<and> 0 \<le> p \<and> p \<le> 1 \<and> \<bar>c\<bar> \<le> 2 ^ 63"
    by auto
  have T0: "0 \<le> T" using Cons.prems(3) by linarith
  have W1: "1 \<le> W"
  proof -
    have "1 \<le> ?U\<^sup>2" using u by (simp add: power2_eq_square algebra_simps)
    with Cons.prems(4) show ?thesis by linarith
  qed
  have rest0: "0 \<le> ?rest"
    using rest by (intro sum_list_nonneg) auto
  have T'0: "0 \<le> ?T'" using T0 pc(2) by simp
  have big: "W * ?U ^ Suc (length zs) * (?T' + ?rest) \<le> 2 ^ 64"
    using Cons.prems(6) z by (simp add: algebra_simps)
  have small: "W * ?T' \<le> W * ?U ^ Suc (length zs) * (?T' + ?rest)"
  proof -
    have "W * 1 \<le> W * ?U ^ Suc (length zs)"
      using W1 pow_ulp_ge_1[of "Suc (length zs)"] by (intro mult_left_mono) simp_all
    moreover have "?T' \<le> ?T' + ?rest" using rest0 by simp
    ultimately show ?thesis
      using T'0 W1 by (intro mult_mono) simp_all
  qed
  note stepbig = order_trans[OF small big]
  from dot_step_bound[OF Cons.prems(1) pc(1,2,3,4) Cons.prems(2,3,4) stepbig]
  obtain r where r: "dot_step (Some a) (p, c) = Some r" "on_grid r"
    "\<bar>r - (A + p * of_int c)\<bar> \<le> (W * ?U - 1) * ?T'"
    "\<bar>A + p * of_int c\<bar> \<le> ?T'"
    by blast
  have W': "?U\<^sup>2 \<le> W * ?U"
  proof -
    have "W * 1 \<le> W * ?U" using W1 u by (intro mult_left_mono) simp_all
    with Cons.prems(4) show ?thesis by simp
  qed
  have big': "W * ?U * ?U ^ length zs * (?T' + ?rest) \<le> 2 ^ 64"
    using big by (simp add: algebra_simps)
  from Cons.IH[OF r(2) r(3) r(4) W' rest big']
  obtain r' where r': "foldl dot_step (Some r) zs = Some r'" "on_grid r'"
    "\<bar>r' - (A + p * of_int c + (\<Sum>(p, c)\<leftarrow>zs. p * of_int c))\<bar>
       \<le> (W * ?U * ?U ^ length zs - 1) * (?T' + ?rest)"
    by blast
  have "foldl dot_step (Some a) (z # zs) = Some r'"
    using r(1) r'(1) z by simp
  moreover have "\<bar>r' - (A + (\<Sum>(p, c)\<leftarrow>z # zs. p * of_int c))\<bar>
       \<le> (W * ?U ^ length (z # zs) - 1) * (T + (\<Sum>(p, c)\<leftarrow>z # zs. p * \<bar>of_int c\<bar>))"
    using r'(3) z by (simp add: algebra_simps)
  ultimately show ?case using r'(2) by blast
qed

lemma dot_fold: "dot ps cs = foldl dot_step (Some 0) (zip ps cs)"
  unfolding dot_def dot_step_def[abs_def] ..

lemma round64_fixed_on_grid: "round64 p = Some p \<Longrightarrow> on_grid p"
  by (metis on_grid_rnd option.inject option.distinct(1) round64_rnd)

lemma member_le_sum_list_rat:
  fixes xs :: "rat list"
  shows "\<forall>x \<in> set xs. 0 \<le> x \<Longrightarrow> x \<in> set xs \<Longrightarrow> x \<le> sum_list xs"
proof (induction xs)
  case Nil
  then show ?case by simp
next
  case (Cons a xs)
  then have "0 \<le> sum_list xs" by (intro sum_list_nonneg) simp
  with Cons show ?case by auto
qed

lemma weighted_sum_bounds:
  fixes ps :: "rat list" and cs :: "int list"
  assumes "length ps = length cs" and "\<forall>p \<in> set ps. 0 \<le> p"
    and "\<forall>c \<in> set cs. lo \<le> f c \<and> f c \<le> hi"
  shows "lo * sum_list ps \<le> (\<Sum>(p, c)\<leftarrow>zip ps cs. p * f c)
       \<and> (\<Sum>(p, c)\<leftarrow>zip ps cs. p * f c) \<le> hi * sum_list ps"
  using assms
proof (induction ps cs rule: list_induct2)
  case Nil
  then show ?case by simp
next
  case (Cons p ps c cs)
  then have ih: "lo * sum_list ps \<le> (\<Sum>(p, c)\<leftarrow>zip ps cs. p * f c)"
    "(\<Sum>(p, c)\<leftarrow>zip ps cs. p * f c) \<le> hi * sum_list ps"
    by simp_all
  from Cons.prems have p: "0 \<le> p" and c: "lo \<le> f c" "f c \<le> hi" by simp_all
  from p c have "lo * p \<le> p * f c" "p * f c \<le> hi * p"
    by (simp_all add: mult.commute[of p] mult_right_mono)
  with ih show ?case
    by (simp add: distrib_left)
qed

lemma cex_roundings:
  "round64 (of_int 9) = Some 9"
  "round64 (of_int 11) = Some 11"
  "round64 (of_int 14) = Some 14"
  "round64 ((1 - 1 / 2 ^ 53) * 9) = Some (9 - 1 / 2 ^ 49)"
  "round64 (1 / 2 ^ 54 * 11) = Some (11 / 2 ^ 54)"
  "round64 (1 / 2 ^ 54 * 14) = Some (14 / 2 ^ 54)"
  "round64 (0 + (9 - 1 / 2 ^ 49)) = Some (9 - 1 / 2 ^ 49)"
  "round64 (9 - 1 / 2 ^ 49 + 11 / 2 ^ 54) = Some (9 - 1 / 2 ^ 49)"
  "round64 (9 - 1 / 2 ^ 49 + 14 / 2 ^ 54) = Some (9 - 1 / 2 ^ 49)"
  "round64 (1 - 1 / 2 ^ 53) = Some (1 - 1 / 2 ^ 53)"
  "round64 (1 / 2 ^ 54) = Some (1 / 2 ^ 54)"
  subgoal by (rule round64_value[where e = 3 and k = "9 * 2 ^ 49"]; code_simp)
  subgoal by (rule round64_value[where e = 3 and k = "11 * 2 ^ 49"]; code_simp)
  subgoal by (rule round64_value[where e = 3 and k = "14 * 2 ^ 49"]; code_simp)
  subgoal by (rule round64_value[where e = 3 and k = "9 * 2 ^ 49 - 1"]; code_simp)
  subgoal by (rule round64_value[where e = "- 51" and k = "11 * 2 ^ 49"]; code_simp)
  subgoal by (rule round64_value[where e = "- 51" and k = "14 * 2 ^ 49"]; code_simp)
  subgoal by (rule round64_value[where e = 3 and k = "9 * 2 ^ 49 - 1"]; code_simp)
  subgoal by (rule round64_value[where e = 3 and k = "9 * 2 ^ 49 - 1"]; code_simp)
  subgoal by (rule round64_value[where e = 3 and k = "9 * 2 ^ 49 - 1"]; code_simp)
  subgoal by (rule round64_value[where e = "- 1" and k = "2 ^ 53 - 1"]; code_simp)
  subgoal by (rule round64_value[where e = "- 54" and k = "2 ^ 52"]; code_simp)
  done

text \<open>
  Claim C8, as stated: the expected position is never below the least class label. The
  three probabilities \<open>1 - 2 ^ -53\<close>, \<open>2 ^ -54\<close>, \<open>2 ^ -54\<close> are float64 values that sum
  to one; with the class labels 9, 11 and 14 the first product is rounded down to
  \<open>9 - 2 ^ -49\<close>, and neither of the two small products brings the sum back to 9.
\<close>

theorem exp_positions_below_least_label_counterexample:
  "cex_classes \<noteq> [] \<and> length (cex_probas ! 0) = length cex_classes
   \<and> sum_list (cex_probas ! 0) = 1
   \<and> map round64 (cex_probas ! 0) = map Some (cex_probas ! 0)
   \<and> Min (set cex_classes) = 9
   \<and> exp_positions cex_probas cex_classes ! 0 = Some (9 - 1 / 2 ^ 49)
   \<and> (9 - 1 / 2 ^ 49 :: rat) < 9"
proof -
  have "dot [1 - 1 / 2 ^ 53, 1 / 2 ^ 54, 1 / 2 ^ 54] [9, 11, 14] = Some (9 - 1 / 2 ^ 49)"
    unfolding dot_def zip.simps list.case foldl.simps prod.case fmul_def fadd_def
      cex_roundings option.case ..
  then have "exp_positions cex_probas cex_classes ! 0 = Some (9 - 1 / 2 ^ 49)"
    by (simp add: exp_positions_def cex_probas_def cex_classes_def)
  moreover have "map round64 (cex_probas ! 0) = map Some (cex_probas ! 0)"
    unfolding cex_probas_def nth_Cons_0 list.map cex_roundings ..
  ultimately show ?thesis
    by (simp add: cex_probas_def cex_classes_def)
qed

text \<open>
  Claim C8, amended. For every row of float64 probabilities that are not negative, sum
  to one and are one per class label, the function gives a finite expected position
  for that row, and it lies between the least and the greatest class label widened on
  each side by the rounding error \<open>((1 + 2 ^ -53) ^ (n + 2) - 1) * m\<close>, for \<open>n\<close> class
  labels of magnitude at most \<open>m\<close> (int64 labels, fewer than \<open>2 ^ 52\<close> of them).
\<close>

theorem exp_positions_in_range:
  assumes ne: "classes \<noteq> []" and n: "length classes + 2 \<le> 2 ^ 52"
    and c64: "\<forall>c \<in> set classes. \<bar>c\<bar> \<le> 2 ^ 63"
    and i: "i < length probas" and len: "length (probas ! i) = length classes"
    and ps: "\<forall>p \<in> set (probas ! i). 0 \<le> p \<and> round64 p = Some p"
    and one: "sum_list (probas ! i) = 1"
  shows "length (exp_positions probas classes) = length probas
       \<and> (\<exists>e. exp_positions probas classes ! i = Some e
              \<and> of_int (Min (set classes)) - rounding_slack classes \<le> e
              \<and> e \<le> of_int (Max (set classes)) + rounding_slack classes)"
proof -
  let ?ps = "probas ! i"
  let ?zs = "zip ?ps classes"
  let ?U = "1 + ulp53"
  let ?M = "rat_of_int (Max (abs ` set classes))"
  let ?abs = "\<Sum>(p, c)\<leftarrow>?zs. p * \<bar>rat_of_int c\<bar>"
  let ?exact = "\<Sum>(p, c)\<leftarrow>?zs. p * rat_of_int c"
  note u = ulp53_pos
  have nn: "\<forall>p \<in> set ?ps. 0 \<le> p" using ps by simp
  have le1: "p \<le> 1" if "p \<in> set ?ps" for p
    using member_le_sum_list_rat[OF nn that] one by simp
  have zs: "\<forall>(p, c) \<in> set ?zs. on_grid p \<and> 0 \<le> p \<and> p \<le> 1 \<and> \<bar>c\<bar> \<le> 2 ^ 63"
  proof (intro ballI)
    fix z assume z: "z \<in> set ?zs"
    obtain p c where pc: "z = (p, c)" by (cases z)
    from z have "p \<in> set ?ps" "c \<in> set classes"
      unfolding pc by (auto dest: set_zip_leftD set_zip_rightD)
    with ps c64 le1 show "case z of (p, c) \<Rightarrow> on_grid p \<and> 0 \<le> p \<and> p \<le> 1 \<and> \<bar>c\<bar> \<le> 2 ^ 63"
      unfolding pc by (simp add: round64_fixed_on_grid)
  qed
  have lenz: "length ?zs = length classes" using len by simp
  \<comment> \<open>the exact sums\<close>
  have absM: "\<forall>c \<in> set classes. 0 \<le> \<bar>rat_of_int c\<bar> \<and> \<bar>rat_of_int c\<bar> \<le> ?M"
  proof
    fix c assume c: "c \<in> set classes"
    then have "\<bar>c\<bar> \<le> Max (abs ` set classes)" by (intro Max_ge) auto
    then have "rat_of_int \<bar>c\<bar> \<le> ?M" by (simp only: of_int_le_iff)
    then show "0 \<le> \<bar>rat_of_int c\<bar> \<and> \<bar>rat_of_int c\<bar> \<le> ?M" by simp
  qed
  from weighted_sum_bounds[OF len nn absM] one
  have abs0: "0 \<le> ?abs" and absle: "?abs \<le> ?M" by simp_all
  have range: "\<forall>c \<in> set classes. rat_of_int (Min (set classes)) \<le> rat_of_int c
                 \<and> rat_of_int c \<le> rat_of_int (Max (set classes))"
    by auto
  from weighted_sum_bounds[OF len nn range] one
  have exact: "rat_of_int (Min (set classes)) \<le> ?exact" "?exact \<le> rat_of_int (Max (set classes))"
    by simp_all
  have M63: "?M \<le> 2 ^ 63"
  proof -
    have "Max (abs ` set classes) \<in> abs ` set classes" using ne by (intro Max_in) auto
    with c64 have "Max (abs ` set classes) \<le> 2 ^ 63" by auto
    then have "?M \<le> rat_of_int (2 ^ 63)" by (simp only: of_int_le_iff)
    then show ?thesis by simp
  qed
  \<comment> \<open>the rounded sum\<close>
  have pow: "?U\<^sup>2 * ?U ^ length ?zs = ?U ^ (length classes + 2)"
    unfolding lenz by (simp add: power_add mult.commute power2_eq_square)
  have pow2: "?U ^ (length classes + 2) \<le> 2" by (rule pow_ulp_le_2[OF n])
  have pow1: "1 \<le> ?U ^ (length classes + 2)" by (rule pow_ulp_ge_1)
  have "?U ^ (length classes + 2) * ?abs \<le> 2 * 2 ^ 63"
    using pow2 absle M63 abs0 by (intro mult_mono) simp_all
  then have big: "?U\<^sup>2 * ?U ^ length ?zs * (0 + ?abs) \<le> 2 ^ 64"
    unfolding pow by simp
  have "\<exists>r. foldl dot_step (Some 0) ?zs = Some r \<and> on_grid r
           \<and> \<bar>r - (0 + ?exact)\<bar> \<le> (?U\<^sup>2 * ?U ^ length ?zs - 1) * (0 + ?abs)"
    by (rule dot_fold_bound[OF on_grid_0 _ _ _ zs big]) simp_all
  then obtain r where r: "dot ?ps classes = Some r"
    and err: "\<bar>r - ?exact\<bar> \<le> (?U ^ (length classes + 2) - 1) * ?abs"
    unfolding pow dot_fold by auto
  have "(?U ^ (length classes + 2) - 1) * ?abs \<le> (?U ^ (length classes + 2) - 1) * ?M"
    using pow1 absle by (intro mult_left_mono) simp_all
  also have "\<dots> = rounding_slack classes"
    by (simp add: rounding_slack_def ulp53_def)
  finally have "\<bar>r - ?exact\<bar> \<le> rounding_slack classes" using err by linarith
  with exact have "rat_of_int (Min (set classes)) - rounding_slack classes \<le> r"
    "r \<le> rat_of_int (Max (set classes)) + rounding_slack classes"
    by linarith+
  moreover have "exp_positions probas classes ! i = Some r"
    using i r by (simp add: exp_positions_def)
  ultimately show ?thesis by (simp add: exp_positions_def)
qed

lemma toy_roundings:
  "round64 (of_int 1) = Some 1"
  "round64 (of_int 2) = Some 2"
  "round64 (1 / 4 * 1) = Some (1 / 4)"
  "round64 (3 / 4 * 2) = Some (3 / 2)"
  "round64 (0 + 1 / 4) = Some (1 / 4)"
  "round64 (1 / 4 + 3 / 2) = Some (7 / 4)"
  "round64 (1 / 4) = Some (1 / 4)"
  "round64 (3 / 4) = Some (3 / 4)"
  subgoal by (rule round64_value[where e = 0 and k = "2 ^ 52"]; code_simp)
  subgoal by (rule round64_value[where e = 1 and k = "2 ^ 52"]; code_simp)
  subgoal by (rule round64_value[where e = "- 2" and k = "2 ^ 52"]; code_simp)
  subgoal by (rule round64_value[where e = 0 and k = "3 * 2 ^ 51"]; code_simp)
  subgoal by (rule round64_value[where e = "- 2" and k = "2 ^ 52"]; code_simp)
  subgoal by (rule round64_value[where e = 0 and k = "7 * 2 ^ 50"]; code_simp)
  subgoal by (rule round64_value[where e = "- 2" and k = "2 ^ 52"]; code_simp)
  subgoal by (rule round64_value[where e = "- 1" and k = "3 * 2 ^ 51"]; code_simp)
  done

theorem exp_positions_in_range_witness:
  "toy_classes \<noteq> [] \<and> length toy_classes + 2 \<le> 2 ^ 52
   \<and> length (toy_probas ! 0) = length toy_classes
   \<and> sum_list (toy_probas ! 0) = 1
   \<and> map round64 (toy_probas ! 0) = map Some (toy_probas ! 0)
   \<and> length (exp_positions toy_probas toy_classes) = 1
   \<and> exp_positions toy_probas toy_classes ! 0 = Some (7 / 4)
   \<and> of_int (Min (set toy_classes)) - rounding_slack toy_classes \<le> 7 / 4
   \<and> 7 / 4 \<le> of_int (Max (set toy_classes)) + rounding_slack toy_classes"
proof -
  have ne: "toy_classes \<noteq> []" and n: "length toy_classes + 2 \<le> 2 ^ 52"
    and c64: "\<forall>c \<in> set toy_classes. \<bar>c\<bar> \<le> 2 ^ 63"
    and i: "0 < length toy_probas" and len: "length (toy_probas ! 0) = length toy_classes"
    and one: "sum_list (toy_probas ! 0) = 1"
    by (simp_all add: toy_classes_def toy_probas_def)
  have fl: "map round64 (toy_probas ! 0) = map Some (toy_probas ! 0)"
    unfolding toy_probas_def nth_Cons_0 list.map toy_roundings ..
  then have ps: "\<forall>p \<in> set (toy_probas ! 0). 0 \<le> p \<and> round64 p = Some p"
    by (simp add: toy_probas_def)
  have "dot [1 / 4, 3 / 4] [1, 2] = Some (7 / 4)"
    unfolding dot_def zip.simps list.case foldl.simps prod.case fmul_def fadd_def
      toy_roundings option.case ..
  then have ev: "exp_positions toy_probas toy_classes ! 0 = Some (7 / 4)"
    by (simp add: exp_positions_def toy_probas_def toy_classes_def)
  from exp_positions_in_range[OF ne n c64 i len ps one] ev
  have "length (exp_positions toy_probas toy_classes) = length toy_probas"
    and "of_int (Min (set toy_classes)) - rounding_slack toy_classes \<le> 7 / 4"
    and "7 / 4 \<le> of_int (Max (set toy_classes)) + rounding_slack toy_classes"
    by auto
  with ne n len one fl ev show ?thesis
    by (simp add: toy_probas_def)
qed

end
